theory Spec2Isabelle
  imports Main
begin

section \<open>Strings and whitespace\<close>

text \<open>
  Python strings are modelled as \<open>string\<close>; a \<open>char\<close> stands for a code point below 256.
  \<open>str.strip()\<close> without argument and the regular-expression class \<open>\s\<close> (on \<open>str\<close>
  patterns) both use the predicate \<open>str.isspace\<close>. Below 256 it holds for the code points
  9 to 13, 28 to 32, 133 and 160.
\<close>

definition isspace :: "char \<Rightarrow> bool" where
  "isspace c =
     (let n = (of_char c :: nat)
      in (9 \<le> n \<and> n \<le> 13) \<or> (28 \<le> n \<and> n \<le> 32) \<or> n = 133 \<or> n = 160)"

definition lstrip :: "string \<Rightarrow> string" where
  "lstrip s = dropWhile isspace s"

definition rstrip :: "string \<Rightarrow> string" where
  "rstrip s = rev (dropWhile isspace (rev s))"

text \<open>\<open>s.strip()\<close>: whitespace removed at both ends.\<close>

definition strip :: "string \<Rightarrow> string" where
  "strip s = rstrip (lstrip s)"

text \<open>
  \<open>re.sub(r'\s+', ' ', s)\<close>: scanning from the left, every maximal run of whitespace is
  one match of \<open>\s+\<close> (the quantifier is greedy) and is replaced by one space.
\<close>

function re_sub_spaces :: "string \<Rightarrow> string" where
  "re_sub_spaces [] = []"
| "re_sub_spaces (c # cs) =
     (if isspace c then CHR '' '' # re_sub_spaces (dropWhile isspace cs)
      else c # re_sub_spaces cs)"
  by pat_completeness auto
termination
  by (relation "measure length") (auto simp: length_dropWhile_le less_Suc_eq_le)

text \<open>
  Lines 45 and 46 of the handler, for a \<open>name\<close> that is a string:
  \<^verbatim>\<open>name = data.get('name', '').strip()\<close> and
  \<^verbatim>\<open>name = re.sub(r'\s+', ' ', name).strip()\<close>.
\<close>

definition normalize_name :: "string \<Rightarrow> string" where
  "normalize_name raw = strip (re_sub_spaces (strip raw))"

subsection \<open>The normalised name as the specification words it\<close>

text \<open>
  The specification: the string with leading and trailing whitespace removed
  (\<open>spec_trim\<close>) and every internal run of whitespace replaced by a single space
  (\<open>spec_collapse\<close>, which looks at each character and its successor).
\<close>

definition spec_trim :: "string \<Rightarrow> string" where
  "spec_trim s = rev (dropWhile isspace (rev (dropWhile isspace s)))"

fun spec_collapse :: "string \<Rightarrow> string" where
  "spec_collapse [] = []"
| "spec_collapse [c] = [if isspace c then CHR '' '' else c]"
| "spec_collapse (c # d # cs) =
     (if isspace c then
        (if isspace d then spec_collapse (d # cs) else CHR '' '' # spec_collapse (d # cs))
      else c # spec_collapse (d # cs))"

definition spec_normalized :: "string \<Rightarrow> string" where
  "spec_normalized s = spec_collapse (spec_trim s)"

text \<open>A string without whitespace at either end.\<close>

definition trimmed :: "string \<Rightarrow> bool" where
  "trimmed s = (case s of [] \<Rightarrow> True | c # cs \<Rightarrow> \<not> isspace c \<and> \<not> isspace (last s))"


section \<open>Extracting the JSON text from the model's reply\<close>

text \<open>
  \<^verbatim>\<open>re.search(r"```json\s*({.*?})\s*```", text, re.DOTALL | re.IGNORECASE)\<close>.
  The pattern is matched by backtracking, left to right, at the leftmost position where
  it can match at all. Its pieces, in order:

  \<^item> the literal of three backquotes and \<open>json\<close>, where \<open>re.IGNORECASE\<close> lets each letter
    match in either case (\<open>fence_open\<close>);
  \<^item> \<open>\s*\<close>, greedy; the next piece is the brace, which is no whitespace, so the only
    successful choice consumes the whole run of whitespace;
  \<^item> the group \<open>({.*?})\<close>: the lazy \<open>.*?\<close> (with \<open>re.DOTALL\<close> the dot matches every
    character) grows one character at a time until a closing brace is followed by the
    rest of the pattern (\<open>lazy_group\<close>);
  \<^item> \<open>\s*\<close> and three backquotes (\<open>fence_close\<close>): again the whole run of whitespace.
\<close>

definition ieq :: "char \<Rightarrow> char \<Rightarrow> char \<Rightarrow> bool" where
  "ieq lower upper c = (c = lower \<or> c = upper)"

fun fence_open :: "string \<Rightarrow> string option" where
  "fence_open (b1 # b2 # b3 # c1 # c2 # c3 # c4 # rest) =
     (if b1 = CHR 0x60 \<and> b2 = CHR 0x60 \<and> b3 = CHR 0x60
         \<and> ieq CHR ''j'' CHR ''J'' c1 \<and> ieq CHR ''s'' CHR ''S'' c2
         \<and> ieq CHR ''o'' CHR ''O'' c3 \<and> ieq CHR ''n'' CHR ''N'' c4
      then Some rest else None)"
| "fence_open _ = None"

definition fence_close :: "string \<Rightarrow> bool" where
  "fence_close s = (take 3 (dropWhile isspace s) = [CHR 0x60, CHR 0x60, CHR 0x60])"

fun lazy_group :: "string \<Rightarrow> string option" where
  "lazy_group [] = None"
| "lazy_group (c # cs) =
     (if c = CHR ''}'' \<and> fence_close cs then Some [c]
      else map_option ((#) c) (lazy_group cs))"

text \<open>The pattern matched at the very start of \<open>s\<close>; the result is group 1.\<close>

definition match_at :: "string \<Rightarrow> string option" where
  "match_at s =
     (case fence_open s of
        None \<Rightarrow> None
      | Some r \<Rightarrow>
          (case dropWhile isspace r of
             [] \<Rightarrow> None
           | c # body \<Rightarrow>
               if c = CHR ''{'' then map_option ((#) c) (lazy_group body) else None))"

text \<open>\<open>re.search\<close>: the first start position, from the left, where the pattern matches.\<close>

fun re_search_fence :: "string \<Rightarrow> string option" where
  "re_search_fence [] = match_at []"
| "re_search_fence (c # cs) =
     (case match_at (c # cs) of
        Some g \<Rightarrow> Some g
      | None \<Rightarrow> re_search_fence cs)"

definition startswith_brace :: "string \<Rightarrow> bool" where
  "startswith_brace s = (take 1 s = [CHR ''{''])"

definition endswith_brace :: "string \<Rightarrow> bool" where
  "endswith_brace s = (s \<noteq> [] \<and> last s = CHR ''}'')"

definition extract_json_from_response :: "string \<Rightarrow> string" where
  "extract_json_from_response text =
     (case re_search_fence text of
        Some group1 \<Rightarrow> group1
      | None \<Rightarrow>
          (let text' = strip text
           in if startswith_brace text' \<and> endswith_brace text' then text' else text'))"

subsection \<open>A fenced block, as the specification words it\<close>

text \<open>
  \<open>fenced_block s g\<close>: the text \<open>s\<close> begins with a block of the form
  \<open>```json { ... } ```\<close> whose braced content is \<open>g\<close>: three backquotes, \<open>json\<close> in any
  case, optional whitespace, the braced content, optional whitespace, three backquotes.
  \<open>contains_fenced_block text pre g\<close>: such a block starts after the prefix \<open>pre\<close>.
\<close>

definition json_marker :: "string \<Rightarrow> bool" where
  "json_marker m =
     (case m of
        [c1, c2, c3, c4] \<Rightarrow>
          (c1 = CHR ''j'' \<or> c1 = CHR ''J'') \<and> (c2 = CHR ''s'' \<or> c2 = CHR ''S'')
          \<and> (c3 = CHR ''o'' \<or> c3 = CHR ''O'') \<and> (c4 = CHR ''n'' \<or> c4 = CHR ''N'')
      | _ \<Rightarrow> False)"

definition fenced_block :: "string \<Rightarrow> string \<Rightarrow> bool" where
  "fenced_block s g =
     (\<exists>m w1 inner w2 post.
        s = [CHR 0x60, CHR 0x60, CHR 0x60] @ m @ w1 @ g @ w2
              @ [CHR 0x60, CHR 0x60, CHR 0x60] @ post
        \<and> json_marker m \<and> list_all isspace w1 \<and> list_all isspace w2
        \<and> g = [CHR ''{''] @ inner @ [CHR ''}''])"

definition contains_fenced_block :: "string \<Rightarrow> string \<Rightarrow> string \<Rightarrow> bool" where
  "contains_fenced_block text pre g = (\<exists>rest. text = pre @ rest \<and> fenced_block rest g)"

section \<open>JSON values and Python's view of them\<close>

text \<open>
  The value that \<open>json.loads\<close> (and Flask's \<open>get_json\<close>) builds: \<open>None\<close>, a bool, an int,
  a float, a str, a list or a dict. A dict is an association list; its keys are
  distinct. A float is sign, mantissa and binary exponent, an infinity or NaN (the
  literals \<open>Infinity\<close> and \<open>NaN\<close> are read by \<open>json.loads\<close>).
\<close>

datatype pyfloat = Finite bool nat int | Infinite bool | NaN

datatype json =
    JNull
  | JBool bool
  | JInt int
  | JFloat pyfloat
  | JStr string
  | JArr "json list"
  | JObj "(string \<times> json) list"

text \<open>Truth value of an object, as \<open>not data\<close> tests it.\<close>

fun truthy :: "json \<Rightarrow> bool" where
  "truthy JNull = False"
| "truthy (JBool b) = b"
| "truthy (JInt i) = (i \<noteq> 0)"
| "truthy (JFloat (Finite _ m _)) = (m \<noteq> 0)"
| "truthy (JFloat _) = True"
| "truthy (JStr s) = (s \<noteq> [])"
| "truthy (JArr xs) = (xs \<noteq> [])"
| "truthy (JObj kv) = (kv \<noteq> [])"

text \<open>\<open>d.get(key, default)\<close> on a dict.\<close>

definition dict_get :: "(string \<times> json) list \<Rightarrow> string \<Rightarrow> json \<Rightarrow> json" where
  "dict_get kv key dflt = (case map_of kv key of None \<Rightarrow> dflt | Some v \<Rightarrow> v)"

fun type_name :: "json \<Rightarrow> string" where
  "type_name JNull = ''NoneType''"
| "type_name (JBool _) = ''bool''"
| "type_name (JInt _) = ''int''"
| "type_name (JFloat _) = ''float''"
| "type_name (JStr _) = ''str''"
| "type_name (JArr _) = ''list''"
| "type_name (JObj _) = ''dict''"

text \<open>The message of the \<open>AttributeError\<close> raised by \<open>v.attr\<close> when \<open>v\<close> has no such attribute.\<close>

definition no_attribute :: "json \<Rightarrow> string \<Rightarrow> string" where
  "no_attribute v attr =
     [CHR 0x27] @ type_name v @ [CHR 0x27] @ '' object has no attribute ''
       @ [CHR 0x27] @ attr @ [CHR 0x27]"

text \<open>
  \<open>str(v)\<close>, as the f-string of line 105 formats the value: a str is itself, \<open>None\<close> and
  the bools have fixed names; for numbers and containers the text is what the
  interpreter's \<open>repr\<close> gives, taken as the parameter \<open>repr\<close>.
\<close>

fun py_str :: "(json \<Rightarrow> string) \<Rightarrow> json \<Rightarrow> string" where
  "py_str repr (JStr s) = s"
| "py_str repr JNull = ''None''"
| "py_str repr (JBool b) = (if b then ''True'' else ''False'')"
| "py_str repr v = repr v"


section \<open>The request handler\<close>

text \<open>
  What the handler reads from its surroundings is made explicit.

  \<^item> The request is the outcome of \<open>request.get_json()\<close>, called with its default
    arguments: a body that cannot be parsed makes it raise \<open>BadRequest\<close>
    (\<open>BodyNotJson\<close>); otherwise it returns the parsed value (\<open>BodyJson\<close>, with \<open>JNull\<close>
    for \<open>None\<close>).
  \<^item> \<open>complete e attempt prompt\<close> is the outcome of lines 86 to 96 at the given attempt:
    the completion call and the reading of \<open>choices[0].message.content\<close> either raise an
    exception \<open>x\<close> of class \<open>Exception\<close> (\<open>Raises (str x)\<close>), or raise one outside that
    class, such as \<open>KeyboardInterrupt\<close> or \<open>SystemExit\<close> (\<open>RaisesBase\<close> with the name of
    its class), or give the reply text (\<open>Returns\<close>).
  \<^item> \<open>json_loads\<close> is \<open>json.loads\<close>: \<open>None\<close> stands for \<open>JSONDecodeError\<close>.
  \<^item> \<open>py_repr\<close> is the text Python prints for numbers and containers.

  What the handler does to its surroundings is the trace of completion calls (with the
  prompt sent) and of \<open>time.sleep\<close> calls (with the seconds). Logging is left out.
\<close>

datatype request = BodyNotJson | BodyJson json

datatype call_outcome = Raises string | RaisesBase string | Returns string

datatype event = ApiCall string | Sleep nat

datatype exn = BadRequest | AttributeError string | BaseException string

text \<open>
  \<open>isinstance(x, Exception)\<close>: what a clause \<open>except Exception\<close> catches. \<open>BadRequest\<close>
  and \<open>AttributeError\<close> are subclasses of \<open>Exception\<close>; \<open>BaseException n\<close> stands for an
  exception of the class named \<open>n\<close>, which is none.
\<close>

fun is_Exception :: "exn \<Rightarrow> bool" where
  "is_Exception BadRequest = True"
| "is_Exception (AttributeError m) = True"
| "is_Exception (BaseException n) = False"

record response =
  body :: json
  status :: nat

record env =
  complete :: "nat \<Rightarrow> string \<Rightarrow> call_outcome"
  json_loads :: "string \<Rightarrow> json option"
  py_repr :: "json \<Rightarrow> string"

text \<open>The local variables of the retry loop, and the trace so far.\<close>

record loop_state =
  prediction_result :: json
  openai_error_message :: "string option"
  ai_reason :: json
  trace :: "event list"

text \<open>
  How one pass through the loop body ends: with the next pass, by \<open>break\<close>, by \<open>return\<close>,
  or with an exception that the \<open>except Exception\<close> of line 124 does not catch.
\<close>

datatype control = Continue | Break | Return response | Propagate exn

definition max_retries :: nat where
  "max_retries = 3"

text \<open>\<open>jsonify({"error": msg}), code\<close>\<close>

definition error_response :: "string \<Rightarrow> nat \<Rightarrow> response" where
  "error_response msg code = \<lparr>body = JObj [(''error'', JStr msg)], status = code\<rparr>"

subsection \<open>The prompt (lines 56 to 76)\<close>

definition unlines :: "string list \<Rightarrow> string" where
  "unlines ls = concat (map (\<lambda>l. l @ [CHR 0x0A]) ls)"

definition prompt_tail :: "string list" where
  \<open>prompt_tail =
    [''        Consider the name regardless of its capitalization. '',
     '''',
     ''        A name is considered unrealistic if:'',
     ''        * It contains characters other than letters (a-z, A-Z), spaces, hyphens (-), and dots (.).'',
     ''        * It is less than three letter in total (excluding spaces, hyphens, and dots).'',
     '''',
     ''        Examples of realistic names: 'Mohiuddin Mohi', 'Aisha Khan', 'Sheik Kaykaus', 'Mr. Hanif Uddin', 'John-Doe', 'Mary.Anne Smith', 'm. a. h. hashan', 'p. k. kibria', 'M. k. robi mullah'.'',
     ''        Examples of unrealistic names: 'Abdullah123'(contains numbers), 'Table Chair'(common phrase), 'Qwert' (Keyboard Pattern), 'asif.azad'(resembles email), 'm.ahmed'(resembles email).'',
     '''',
     ''        Respond in JSON format. If the name is 'Realistic', the JSON should only contain:'',
     ''        {'',
     ''            "prediction": "Realistic"'',
     ''        }'',
     ''        If the name is 'Not Realistic', the JSON should contain:'',
     ''        {'',
     ''            "prediction": "Not Realistic",'',
     ''            "reason": "<brief reason (max 50 character) why the name is not realistic>"'',
     ''        }'']\<close>

definition build_prompt :: "string \<Rightarrow> string" where
  \<open>build_prompt name =
     unlines
       ([[],
         ''        You are an expert in name classification. Determine if the name '' @ [CHR 0x27] @ name @ [CHR 0x27]
           @ '' is a realistic human name, used in any culture.'']
        @ prompt_tail)
     @ ''        ''\<close>

subsection \<open>One attempt (lines 84 to 134)\<close>

text \<open>
  Lines 100 to 122. \<open>Inr\<close>: the loop is left by \<open>break\<close> with the given variables, on
  success and in both \<open>except\<close> clauses. \<open>Inl m\<close>: \<open>result.get\<close> raised an
  \<open>AttributeError\<close> with message \<open>m\<close> because the parsed value is no dict; neither
  \<open>except\<close> clause of the inner \<open>try\<close> catches it.
\<close>

definition validate_reply :: "env \<Rightarrow> string \<Rightarrow> loop_state \<Rightarrow> string + loop_state" where
  "validate_reply e json_str_to_parse st =
     (case json_loads e json_str_to_parse of
        None \<Rightarrow>
          Inr (st\<lparr>openai_error_message := Some ''Invalid JSON response format from model''\<rparr>)
      | Some result \<Rightarrow>
          (case result of
             JObj kv \<Rightarrow>
               (let prediction_value = dict_get kv ''prediction'' JNull
                in if prediction_value \<notin> set [JStr ''Realistic'', JStr ''Not Realistic'']
                   then
                     Inr (st\<lparr>openai_error_message :=
                            Some (''Invalid prediction value from model: ''
                                    @ py_str (py_repr e) prediction_value)\<rparr>)
                   else
                     Inr (st\<lparr>prediction_result := prediction_value,
                             ai_reason :=
                               (if prediction_value = JStr ''Not Realistic''
                                then dict_get kv ''reason'' JNull else JNull),
                             openai_error_message := None\<rparr>))
           | _ \<Rightarrow> Inl (no_attribute result ''get'')))"

text \<open>Lines 124 to 134: the handler of \<open>except Exception as api_error\<close>.\<close>

definition api_failed :: "nat \<Rightarrow> string \<Rightarrow> loop_state \<Rightarrow> control \<times> loop_state" where
  "api_failed attempt msg st =
     (let st' = st\<lparr>openai_error_message := Some (''OpenAI API error: '' @ msg)\<rparr>
      in if attempt < max_retries - 1
         then (let wait_time = 2 ^ attempt
               in (Continue, st'\<lparr>trace := trace st' @ [Sleep wait_time]\<rparr>))
         else (Return (error_response (''OpenAI API error: '' @ msg) 500), st'))"

definition attempt_body :: "env \<Rightarrow> string \<Rightarrow> nat \<Rightarrow> loop_state \<Rightarrow> control \<times> loop_state" where
  "attempt_body e name attempt st =
     (let prompt = build_prompt name;
          st1 = st\<lparr>trace := trace st @ [ApiCall prompt]\<rparr>
      in case complete e attempt prompt of
           Raises msg \<Rightarrow> api_failed attempt msg st1
         | RaisesBase n \<Rightarrow> (Propagate (BaseException n), st1)
         | Returns content \<Rightarrow>
             (let reply_content = strip content;
                  json_str_to_parse = extract_json_from_response reply_content
              in case validate_reply e json_str_to_parse st1 of
                   Inl msg \<Rightarrow> api_failed attempt msg st1
                 | Inr st2 \<Rightarrow> (Break, st2)))"

subsection \<open>The retry loop (line 83)\<close>

text \<open>
  \<open>for attempt in range(max_retries)\<close>, entered at \<open>attempt\<close>. The result is
  \<open>Some (Inr r)\<close> when the loop body returned the response \<open>r\<close> from the handler,
  \<open>Some (Inl x)\<close> when the exception \<open>x\<close> left the loop uncaught, and \<open>None\<close> when the
  loop was left by \<open>break\<close> or ran out.
\<close>

function retry_loop ::
  "env \<Rightarrow> string \<Rightarrow> nat \<Rightarrow> loop_state \<Rightarrow> (exn + response) option \<times> loop_state" where
  "retry_loop e name attempt st =
     (if attempt < max_retries then
        (case attempt_body e name attempt st of
           (Continue, st') \<Rightarrow> retry_loop e name (attempt + 1) st'
         | (Break, st') \<Rightarrow> (None, st')
         | (Return r, st') \<Rightarrow> (Some (Inr r), st')
         | (Propagate x, st') \<Rightarrow> (Some (Inl x), st'))
      else (None, st))"
  by pat_completeness auto
termination
  by (relation "measure (\<lambda>(e, name, attempt, st). max_retries - attempt)") auto

text \<open>The equation of \<open>retry_loop\<close> is unfolded by hand, one pass at a time.\<close>

declare retry_loop.simps [simp del]

subsection \<open>After the loop (lines 137 to 154)\<close>

definition after_loop :: "string \<Rightarrow> loop_state \<Rightarrow> response" where
  "after_loop name st =
     (if prediction_result st = JStr ''Realistic'' then
        \<lparr>body = JObj [(''name'', JStr name), (''prediction'', JStr ''Realistic''),
                      (''reason'', JStr '' '')],
         status = 200\<rparr>
      else if prediction_result st = JStr ''Not Realistic'' then
        \<lparr>body = JObj [(''name'', JStr name), (''prediction'', JStr ''Not Realistic'')],
         status = 200\<rparr>
      else
        error_response
          (''Failed to get prediction. Last error: ''
             @ (case openai_error_message st of
                  None \<Rightarrow> ''Unknown error after retries''
                | Some m \<Rightarrow> if m = [] then ''Unknown error after retries'' else m))
          500)"

subsection \<open>The handler (lines 38 to 159)\<close>

definition initial_state :: loop_state where
  "initial_state =
     \<lparr>prediction_result = JNull, openai_error_message = None, ai_reason = JNull,
      trace = []\<rparr>"

text \<open>
  The body of the outer \<open>try\<close>. \<open>Inl x\<close>: the exception \<open>x\<close> leaves the body;
  \<open>Inr r\<close>: a \<open>return\<close> statement gave the response \<open>r\<close>.
  The second component is the trace of calls and sleeps.
\<close>

definition predict_body :: "env \<Rightarrow> request \<Rightarrow> (exn + response) \<times> event list" where
  "predict_body e req =
     (case req of
        BodyNotJson \<Rightarrow> (Inl BadRequest, [])
      | BodyJson data \<Rightarrow>
          if \<not> truthy data then (Inr (error_response ''Invalid JSON payload'' 400), [])
          else
            (case data of
               JObj kv \<Rightarrow>
                 (case dict_get kv ''name'' (JStr []) of
                    JStr raw \<Rightarrow>
                      (let name = normalize_name raw
                       in if name = [] then (Inr (error_response ''No name provided'' 400), [])
                          else
                            (case retry_loop e name 0 initial_state of
                               (Some (Inr r), st) \<Rightarrow> (Inr r, trace st)
                             | (Some (Inl x), st) \<Rightarrow> (Inl x, trace st)
                             | (None, st) \<Rightarrow> (Inr (after_loop name st), trace st)))
                  | v \<Rightarrow> (Inl (AttributeError (no_attribute v ''strip'')), []))
             | _ \<Rightarrow> (Inl (AttributeError (no_attribute data ''get'')), [])))"

text \<open>
  The handler with its outer \<open>except Exception\<close> (lines 157 to 159). \<open>Inr r\<close>: the
  handler gives the response \<open>r\<close>. \<open>Inl x\<close>: the exception \<open>x\<close>, which the clause does not
  catch, leaves the handler and no response is given by it.
\<close>

definition predict :: "env \<Rightarrow> request \<Rightarrow> (exn + response) \<times> event list" where
  "predict e req =
     (case predict_body e req of
        (Inl x, tr) \<Rightarrow>
          if is_Exception x
          then (Inr (error_response ''An unexpected server error occurred'' 500), tr)
          else (Inl x, tr)
      | (Inr r, tr) \<Rightarrow> (Inr r, tr))"

subsection \<open>Vocabulary for statements about the loop\<close>

text \<open>
  \<open>attempt_fails e name i\<close>: attempt \<open>i\<close> ends in the handler of
  \<open>except Exception as api_error\<close> (line 124), because the call raised an exception of
  class \<open>Exception\<close> or because the reply parsed to a value that is no dict. These are the attempts after which the loop
  goes on, so attempt \<open>k\<close> is reached exactly when all attempts before it fail.
\<close>

definition attempt_fails :: "env \<Rightarrow> string \<Rightarrow> nat \<Rightarrow> bool" where
  "attempt_fails e name i =
     (case complete e i (build_prompt name) of
        Raises msg \<Rightarrow> True
      | RaisesBase n \<Rightarrow> False
      | Returns content \<Rightarrow>
          (case json_loads e (extract_json_from_response (strip content)) of
             None \<Rightarrow> False
           | Some (JObj kv) \<Rightarrow> False
           | Some _ \<Rightarrow> True))"

text \<open>
  The trace of the failed attempts \<open>a\<close> up to \<open>k - 1\<close>, each followed by its backoff
  sleep of \<open>2 ^ i\<close> seconds.
\<close>

definition failed_attempts :: "string \<Rightarrow> nat \<Rightarrow> nat \<Rightarrow> event list" where
  "failed_attempts prompt a k = concat (map (\<lambda>i. [ApiCall prompt, Sleep (2 ^ i)]) [a..<k])"

fun is_api_call :: "event \<Rightarrow> bool" where
  "is_api_call (ApiCall p) = True"
| "is_api_call (Sleep n) = False"

subsection \<open>Sample surroundings for the examples\<close>

text \<open>
  \<open>example_loads\<close> is \<open>json.loads\<close> on the four reply texts the examples use; every
  other text is treated as one that does not parse. \<open>example_env\<close> takes the outcome of
  each attempt's call as a function of the attempt number.
\<close>

definition example_loads :: "string \<Rightarrow> json option" where
  \<open>example_loads s =
     (if s = ''{"prediction":"Realistic"}'' then
        Some (JObj [(''prediction'', JStr ''Realistic'')])
      else if s = ''{"prediction":"Not Realistic","reason":"too short"}'' then
        Some (JObj [(''prediction'', JStr ''Not Realistic''), (''reason'', JStr ''too short'')])
      else if s = ''{"prediction":"maybe"}'' then
        Some (JObj [(''prediction'', JStr ''maybe'')])
      else if s = ''{"prediction":"realistic"}'' then
        Some (JObj [(''prediction'', JStr ''realistic'')])
      else None)\<close>

definition example_env :: "(nat \<Rightarrow> call_outcome) \<Rightarrow> env" where
  "example_env outcomes =
     \<lparr>complete = (\<lambda>attempt prompt. outcomes attempt),
      json_loads = example_loads,
      py_repr = (\<lambda>v. ''?'')\<rparr>"

definition example_request :: request where
  "example_request = BodyJson (JObj [(''name'', JStr ''  John   Doe '')])"

section \<open>Properties of the normalisation\<close>

lemma isspace_blank: "isspace CHR '' ''"
  by (simp add: isspace_def)

lemma rstrip_Cons_keep: "\<not> isspace c \<Longrightarrow> rstrip (c # cs) = c # rstrip cs"
  by (simp add: rstrip_def dropWhile_append)

lemma rstrip_last: "rstrip s \<noteq> [] \<Longrightarrow> \<not> isspace (last (rstrip s))"
  unfolding rstrip_def by (simp add: last_rev hd_dropWhile)

lemma rev_dropWhile_rev_id: "s \<noteq> [] \<Longrightarrow> \<not> P (last s) \<Longrightarrow> rev (dropWhile P (rev s)) = s"
  by (induction s rule: rev_induct) auto

lemma rstrip_id: "s \<noteq> [] \<Longrightarrow> \<not> isspace (last s) \<Longrightarrow> rstrip s = s"
  unfolding rstrip_def by (rule rev_dropWhile_rev_id)

lemma last_dropWhile_keep:
  "cs \<noteq> [] \<Longrightarrow> \<not> P (last cs) \<Longrightarrow> dropWhile P cs \<noteq> [] \<and> last (dropWhile P cs) = last cs"
  by (induction cs) auto

lemma rstrip_Nil: "rstrip [] = []"
  by (simp add: rstrip_def)

lemma trimmed_strip: "trimmed (strip s)"
proof (cases "lstrip s")
  case Nil
  then show ?thesis by (simp add: strip_def rstrip_Nil trimmed_def)
next
  case (Cons c cs)
  have "\<not> isspace (hd (dropWhile isspace s))"
    using Cons hd_dropWhile[of isspace s] by (simp add: lstrip_def)
  then have c: "\<not> isspace c"
    using Cons by (simp add: lstrip_def)
  have eq: "strip s = c # rstrip cs"
    using Cons c by (simp add: strip_def rstrip_Cons_keep)
  have "\<not> isspace (last (rstrip (c # cs)))"
    using rstrip_last[of "c # cs"] c by (simp add: rstrip_Cons_keep)
  then show ?thesis
    using c eq Cons by (simp add: trimmed_def strip_def)
qed

lemma strip_trimmed: "trimmed s \<Longrightarrow> strip s = s"
  by (cases s) (auto simp: trimmed_def strip_def lstrip_def rstrip_id rstrip_Nil)

lemma re_sub_spaces_Nil_iff: "re_sub_spaces s = [] \<longleftrightarrow> s = []"
  by (cases s) auto

lemma last_re_sub_spaces:
  "s \<noteq> [] \<Longrightarrow> \<not> isspace (last s) \<Longrightarrow> last (re_sub_spaces s) = last s"
proof (induction s rule: re_sub_spaces.induct)
  case 1
  then show ?case by simp
next
  case (2 c cs)
  show ?case
  proof (cases "isspace c")
    case True
    with 2 have ne: "cs \<noteq> []" by auto
    let ?r = "dropWhile isspace cs"
    have r: "?r \<noteq> []" "last ?r = last cs"
      using "2.prems" ne last_dropWhile_keep[of cs isspace] by simp_all
    have "\<not> isspace (last ?r)"
      using r(2) "2.prems" ne by simp
    then have "last (re_sub_spaces ?r) = last ?r"
      using "2.IH"(1)[OF True r(1)] by simp
    moreover have "re_sub_spaces ?r \<noteq> []"
      using r(1) by (simp only: re_sub_spaces_Nil_iff not_False_eq_True)
    ultimately show ?thesis
      using True ne r(2) by (simp del: dropWhile_eq_Nil_conv)
  next
    case False
    then show ?thesis using 2 by (auto simp: re_sub_spaces_Nil_iff)
  qed
qed

lemma trimmed_re_sub_spaces: "trimmed s \<Longrightarrow> trimmed (re_sub_spaces s)"
proof (cases s)
  case Nil
  then show ?thesis by (simp add: trimmed_def)
next
  case (Cons c cs)
  assume t: "trimmed s"
  then have c: "\<not> isspace c" and l: "\<not> isspace (last s)"
    using Cons by (auto simp: trimmed_def)
  have "last (re_sub_spaces s) = last s"
    using last_re_sub_spaces Cons l by blast
  moreover have "re_sub_spaces s = c # re_sub_spaces cs"
    using Cons c by simp
  ultimately show ?thesis using c l by (simp add: trimmed_def)
qed

lemma normalize_name_eq: "normalize_name s = re_sub_spaces (strip s)"
  by (simp add: normalize_name_def strip_trimmed trimmed_re_sub_spaces trimmed_strip)

lemma re_sub_spaces_collapse: "re_sub_spaces s = spec_collapse s"
proof (induction s rule: spec_collapse.induct)
  case 1
  then show ?case by simp
next
  case (2 c)
  then show ?case by simp
next
  case (3 c d cs)
  then show ?case by auto
qed

lemma strip_spec_trim: "strip s = spec_trim s"
  by (simp add: strip_def lstrip_def rstrip_def spec_trim_def)

lemma re_sub_spaces_idem: "re_sub_spaces (re_sub_spaces s) = re_sub_spaces s"
proof (induction s rule: re_sub_spaces.induct)
  case 1
  then show ?case by simp
next
  case (2 c cs)
  show ?case
  proof (cases "isspace c")
    case True
    let ?r = "dropWhile isspace cs"
    have "dropWhile isspace (re_sub_spaces ?r) = re_sub_spaces ?r"
    proof (cases ?r)
      case Nil
      show ?thesis by (simp only: Nil re_sub_spaces.simps dropWhile.simps)
    next
      case (Cons d ds)
      have "\<not> isspace (hd ?r)"
        using Cons hd_dropWhile[of isspace cs] by simp
      then show ?thesis using Cons by simp
    qed
    then show ?thesis using 2 True by (simp add: isspace_blank)
  next
    case False
    then show ?thesis using 2 by simp
  qed
qed

text \<open>
  Claim C8. Normalisation is idempotent: normalising an already normalised name gives
  it back unchanged, for every string.
\<close>

theorem normalize_name_idempotent: "normalize_name (normalize_name s) = normalize_name s"
proof -
  have t: "trimmed (normalize_name s)"
    unfolding normalize_name_def by (rule trimmed_strip)
  have "normalize_name (normalize_name s) = re_sub_spaces (normalize_name s)"
    by (simp add: normalize_name_eq[of "normalize_name s"] strip_trimmed[OF t])
  also have "\<dots> = normalize_name s"
    by (simp add: normalize_name_eq re_sub_spaces_idem)
  finally show ?thesis .
qed

theorem normalize_name_idempotent_witness:
  "normalize_name (normalize_name [CHR 0x09, CHR ''a'', CHR '' '', CHR 0x0A, CHR ''b'', CHR '' ''])
     = normalize_name [CHR 0x09, CHR ''a'', CHR '' '', CHR 0x0A, CHR ''b'', CHR '' '']"
  by (rule normalize_name_idempotent)

section \<open>Properties of the extraction\<close>

lemma not_isspace_backquote: "\<not> isspace (CHR 0x60)"
  by (simp add: isspace_def)

lemma not_isspace_lbrace: "\<not> isspace CHR ''{''"
  by (simp add: isspace_def)

lemma dropWhile_spaces_then:
  "list_all isspace w \<Longrightarrow> \<not> isspace c \<Longrightarrow> dropWhile isspace (w @ c # r) = c # r"
  by (induction w) auto

lemma fence_close_intro:
  "list_all isspace w \<Longrightarrow> fence_close (w @ [CHR 0x60, CHR 0x60, CHR 0x60] @ post)"
  using dropWhile_spaces_then[of w "CHR 0x60" "[CHR 0x60, CHR 0x60] @ post"]
  by (simp add: fence_close_def not_isspace_backquote)

lemma fence_close_elim:
  assumes "fence_close s"
  shows "\<exists>w post. s = w @ [CHR 0x60, CHR 0x60, CHR 0x60] @ post \<and> list_all isspace w"
proof -
  let ?w = "takeWhile isspace s" and ?d = "dropWhile isspace s"
  from assms have t: "take 3 ?d = [CHR 0x60, CHR 0x60, CHR 0x60]"
    by (simp add: fence_close_def)
  have "?d = take 3 ?d @ drop 3 ?d" by simp
  then have "?d = [CHR 0x60, CHR 0x60, CHR 0x60] @ drop 3 ?d"
    by (simp only: t)
  then have "s = ?w @ [CHR 0x60, CHR 0x60, CHR 0x60] @ drop 3 ?d"
    by (metis takeWhile_dropWhile_id)
  moreover have "list_all isspace ?w"
    by (simp add: list_all_iff) (meson set_takeWhileD)
  ultimately show ?thesis by blast
qed

lemma lazy_group_sound:
  "lazy_group s = Some g \<Longrightarrow>
     \<exists>inner rest. g = inner @ [CHR ''}''] \<and> s = g @ rest \<and> fence_close rest"
proof (induction s arbitrary: g)
  case Nil
  then show ?case by simp
next
  case (Cons c cs)
  show ?case
  proof (cases "c = CHR ''}'' \<and> fence_close cs")
    case True
    then have "g = [c]" using Cons.prems by simp
    then show ?thesis using True by (intro exI[of _ "[]"] exI[of _ cs]) simp
  next
    case False
    then obtain g' where g': "lazy_group cs = Some g'" "g = c # g'"
      using Cons.prems by auto
    from Cons.IH[OF g'(1)] obtain inner rest where
      "g' = inner @ [CHR ''}'']" "cs = g' @ rest" "fence_close rest" by blast
    then show ?thesis using g'(2)
      by (intro exI[of _ "c # inner"] exI[of _ rest]) simp
  qed
qed

lemma lazy_group_complete:
  "fence_close rest \<Longrightarrow>
     \<exists>g. lazy_group (inner @ CHR ''}'' # rest) = Some g \<and> length g \<le> Suc (length inner)"
proof (induction inner)
  case Nil
  then show ?case by simp
next
  case (Cons c inner)
  then obtain g where "lazy_group (inner @ CHR ''}'' # rest) = Some g" "length g \<le> Suc (length inner)"
    by blast
  then show ?case by auto
qed

lemma fence_open_intro:
  "json_marker m \<Longrightarrow> fence_open ([CHR 0x60, CHR 0x60, CHR 0x60] @ m @ r) = Some r"
  by (auto simp: json_marker_def ieq_def split: list.splits)

lemma fence_open_elim:
  "fence_open s = Some r \<Longrightarrow> \<exists>m. s = [CHR 0x60, CHR 0x60, CHR 0x60] @ m @ r \<and> json_marker m"
proof (induction s rule: fence_open.induct)
  case (1 b1 b2 b3 c1 c2 c3 c4 rest)
  then show ?case
    by (intro exI[of _ "[c1, c2, c3, c4]"]) (auto simp: json_marker_def ieq_def split: if_splits)
qed simp_all

lemma match_at_sound:
  assumes "match_at s = Some g"
  shows "fenced_block s g"
proof -
  from assms obtain r where r: "fence_open s = Some r"
    by (auto simp: match_at_def split: option.splits)
  then obtain m where m: "s = [CHR 0x60, CHR 0x60, CHR 0x60] @ m @ r" "json_marker m"
    using fence_open_elim by blast
  from assms r obtain body g' where
    d: "dropWhile isspace r = CHR ''{'' # body" and lg: "lazy_group body = Some g'"
      and g: "g = CHR ''{'' # g'"
    by (auto simp: match_at_def split: list.splits if_splits)
  from lazy_group_sound[OF lg] obtain inner rest where
    i: "g' = inner @ [CHR ''}'']" "body = g' @ rest" "fence_close rest" by blast
  from fence_close_elim[OF i(3)] obtain w2 post where
    w2: "rest = w2 @ [CHR 0x60, CHR 0x60, CHR 0x60] @ post" "list_all isspace w2" by blast
  have r_eq: "r = takeWhile isspace r @ CHR ''{'' # body"
    using d by (metis takeWhile_dropWhile_id)
  have w1: "list_all isspace (takeWhile isspace r)"
    by (simp add: list_all_iff) (meson set_takeWhileD)
  have "s = [CHR 0x60, CHR 0x60, CHR 0x60] @ m @ takeWhile isspace r @ g @ w2
              @ [CHR 0x60, CHR 0x60, CHR 0x60] @ post"
    using m(1) r_eq i(2) w2(1) g by simp
  moreover have "g = [CHR ''{''] @ inner @ [CHR ''}'']"
    using g i(1) by simp
  ultimately show ?thesis
    unfolding fenced_block_def using m(2) w1 w2(2) by blast
qed

lemma match_at_complete:
  assumes "fenced_block s g"
  shows "\<exists>g'. match_at s = Some g' \<and> length g' \<le> length g"
proof -
  from assms obtain m w1 inner w2 post where
    s: "s = [CHR 0x60, CHR 0x60, CHR 0x60] @ m @ w1 @ g @ w2
              @ [CHR 0x60, CHR 0x60, CHR 0x60] @ post"
    and m: "json_marker m" and w1: "list_all isspace w1" and w2: "list_all isspace w2"
    and g: "g = [CHR ''{''] @ inner @ [CHR ''}'']"
    unfolding fenced_block_def by blast
  let ?rest = "w2 @ [CHR 0x60, CHR 0x60, CHR 0x60] @ post"
  let ?r = "w1 @ g @ ?rest"
  have fo: "fence_open s = Some ?r"
    using fence_open_intro[OF m, of ?r] s by simp
  have "?r = w1 @ CHR ''{'' # (inner @ CHR ''}'' # ?rest)"
    using g by simp
  then have d: "dropWhile isspace ?r = CHR ''{'' # (inner @ CHR ''}'' # ?rest)"
    using dropWhile_spaces_then[OF w1 not_isspace_lbrace] by simp
  have "fence_close ?rest" by (rule fence_close_intro[OF w2])
  from lazy_group_complete[where inner = inner, OF this]
  obtain g0 where g0: "lazy_group (inner @ CHR ''}'' # ?rest) = Some g0"
    "length g0 \<le> Suc (length inner)" by blast
  have "match_at s = Some (CHR ''{'' # g0)"
    unfolding match_at_def using fo d g0(1) by (simp del: dropWhile_append)
  then show ?thesis using g0(2) g by simp
qed

lemma re_search_fence_None:
  "re_search_fence s = None \<Longrightarrow> s = pre @ rest \<Longrightarrow> match_at rest = None"
proof (induction s arbitrary: pre)
  case Nil
  then show ?case by simp
next
  case (Cons c cs)
  show ?case
  proof (cases pre)
    case Nil
    then show ?thesis using Cons.prems by (auto split: option.splits)
  next
    case (Cons p ps)
    then have "cs = ps @ rest" using Cons.prems(2) by simp
    moreover have "re_search_fence cs = None"
      using Cons.prems(1) by (auto split: option.splits)
    ultimately show ?thesis using Cons.IH by blast
  qed
qed

lemma re_search_fence_Some:
  "re_search_fence s = Some g \<Longrightarrow>
     \<exists>pre rest. s = pre @ rest \<and> match_at rest = Some g
        \<and> (\<forall>pre' rest'. s = pre' @ rest' \<and> length pre' < length pre \<longrightarrow> match_at rest' = None)"
proof (induction s)
  case Nil
  then show ?case by simp
next
  case (Cons c cs)
  show ?case
  proof (cases "match_at (c # cs)")
    case (Some g')
    then have "g' = g" using Cons.prems by simp
    then show ?thesis using Some by (intro exI[of _ "[]"] exI[of _ "c # cs"]) simp
  next
    case None
    then have "re_search_fence cs = Some g" using Cons.prems by simp
    from Cons.IH[OF this] obtain pre rest where
      p: "cs = pre @ rest" "match_at rest = Some g"
         "\<forall>pre' rest'. cs = pre' @ rest' \<and> length pre' < length pre \<longrightarrow> match_at rest' = None"
      by blast
    have "\<forall>pre' rest'. c # cs = pre' @ rest' \<and> length pre' < length (c # pre)
            \<longrightarrow> match_at rest' = None"
    proof (intro allI impI)
      fix pre' rest'
      assume a: "c # cs = pre' @ rest' \<and> length pre' < length (c # pre)"
      show "match_at rest' = None"
      proof (cases pre')
        case Nil
        then show ?thesis using a None by simp
      next
        case (Cons q qs)
        then have "cs = qs @ rest'" "length qs < length pre" using a by auto
        then show ?thesis using p(3) by blast
      qed
    qed
    then show ?thesis using p(1,2)
      by (intro exI[of _ "c # pre"] exI[of _ rest]) simp
  qed
qed


lemma contains_fenced_block_found:
  assumes "contains_fenced_block text pre g"
  shows "\<exists>pre0 g0. contains_fenced_block text pre0 g0 \<and> re_search_fence text = Some g0
            \<and> length pre0 \<le> length pre \<and> (length pre0 = length pre \<longrightarrow> length g0 \<le> length g)"
proof -
  from assms obtain rest where rest: "text = pre @ rest" "fenced_block rest g"
    unfolding contains_fenced_block_def by blast
  from match_at_complete[OF rest(2)] obtain g' where
    g': "match_at rest = Some g'" "length g' \<le> length g" by blast
  have "re_search_fence text \<noteq> None"
    using re_search_fence_None[OF _ rest(1)] g'(1) by auto
  then obtain g0 where g0: "re_search_fence text = Some g0" by auto
  from re_search_fence_Some[OF g0] obtain pre0 rest0 where
    p: "text = pre0 @ rest0" "match_at rest0 = Some g0"
       "\<forall>pre' rest'. text = pre' @ rest' \<and> length pre' < length pre0 \<longrightarrow> match_at rest' = None"
    by blast
  have le: "length pre0 \<le> length pre"
  proof (rule ccontr)
    assume "\<not> length pre0 \<le> length pre"
    then have "match_at rest = None"
      using p(3)[rule_format, of pre rest] rest(1) by simp
    then show False using g'(1) by simp
  qed
  have same: "length pre0 = length pre \<longrightarrow> length g0 \<le> length g"
  proof
    assume "length pre0 = length pre"
    then have "rest0 = rest" using p(1) rest(1) by auto
    then show "length g0 \<le> length g" using p(2) g' by simp
  qed
  have "contains_fenced_block text pre0 g0"
    unfolding contains_fenced_block_def using p(1) match_at_sound[OF p(2)] by blast
  then show ?thesis using g0 le same by blast
qed

lemma no_fenced_block_search:
  assumes "\<forall>pre g. \<not> contains_fenced_block text pre g"
  shows "re_search_fence text = None"
proof (rule ccontr)
  assume "re_search_fence text \<noteq> None"
  then obtain g0 where "re_search_fence text = Some g0" by auto
  from re_search_fence_Some[OF this] obtain pre0 rest0 where
    "text = pre0 @ rest0" "match_at rest0 = Some g0" by blast
  then have "contains_fenced_block text pre0 g0"
    unfolding contains_fenced_block_def using match_at_sound by blast
  then show False using assms by blast
qed

lemma search_None_no_fenced_block:
  assumes "re_search_fence text = None"
  shows "\<not> contains_fenced_block text pre g"
  using contains_fenced_block_found[of "text" pre g] assms by auto

text \<open>
  Claim C3, as the code has it. For every input that contains a fenced block
  \<open>```json { ... } ```\<close> (the marker in any case), \<open>extract_json_from_response\<close> returns
  the braced content of a fenced block of the input: the one whose opening fence comes
  first and, for that fence, the shortest content. For every input without a fenced
  block it returns the whitespace-trimmed text, whether or not that text starts with
  \<open>{\<close> and ends with \<open>}\<close>. A reply wrapped as
  \<open>```json {"prediction":"Realistic"} ```\<close> yields \<open>{"prediction":"Realistic"}\<close>.
\<close>

theorem extract_json_from_response_spec:
  \<open>(contains_fenced_block text pre g \<longrightarrow>
      (\<exists>pre0 g0. contains_fenced_block text pre0 g0
          \<and> extract_json_from_response text = g0
          \<and> length pre0 \<le> length pre
          \<and> (length pre0 = length pre \<longrightarrow> length g0 \<le> length g)))
    \<and> ((\<forall>pre g. \<not> contains_fenced_block text pre g) \<longrightarrow>
          extract_json_from_response text = strip text)
    \<and> extract_json_from_response ''```json {"prediction":"Realistic"} ```''
          = ''{"prediction":"Realistic"}''\<close>
proof (intro conjI impI)
  assume "contains_fenced_block text pre g"
  from contains_fenced_block_found[OF this] obtain pre0 g0 where
    f: "contains_fenced_block text pre0 g0" "re_search_fence text = Some g0"
       "length pre0 \<le> length pre" "length pre0 = length pre \<longrightarrow> length g0 \<le> length g"
    by blast
  have "extract_json_from_response text = g0"
    using f(2) by (simp add: extract_json_from_response_def)
  then show "\<exists>pre0 g0. contains_fenced_block text pre0 g0
          \<and> extract_json_from_response text = g0
          \<and> length pre0 \<le> length pre
          \<and> (length pre0 = length pre \<longrightarrow> length g0 \<le> length g)"
    using f by blast
next
  assume "\<forall>pre g. \<not> contains_fenced_block text pre g"
  then have "re_search_fence text = None" by (rule no_fenced_block_search)
  then show "extract_json_from_response text = strip text"
    by (simp add: extract_json_from_response_def Let_def)
next
  show \<open>extract_json_from_response ''```json {"prediction":"Realistic"} ```''
          = ''{"prediction":"Realistic"}''\<close>
    by (simp add: extract_json_from_response_def match_at_def fence_close_def isspace_def ieq_def)
qed

theorem extract_json_from_response_spec_witness:
  \<open>contains_fenced_block ''ab```JSON {x} ``` } ```'' ''ab'' ''{x} ``` }''
    \<and> (\<exists>pre0 g0. contains_fenced_block ''ab```JSON {x} ``` } ```'' pre0 g0
          \<and> extract_json_from_response ''ab```JSON {x} ``` } ```'' = g0
          \<and> length pre0 \<le> length ''ab''
          \<and> (length pre0 = length ''ab'' \<longrightarrow> length g0 \<le> length ''{x} ``` }''))
    \<and> (\<forall>pre g. \<not> contains_fenced_block '' {a} '' pre g)
    \<and> extract_json_from_response '' {a} '' = strip '' {a} ''\<close>
proof -
  let ?t = \<open>''ab```JSON {x} ``` } ```''\<close>
  have "fenced_block (drop 2 ?t) (''{x} '' @ [CHR 0x60, CHR 0x60, CHR 0x60] @ '' }'')"
    unfolding fenced_block_def
    apply (rule exI[of _ "''JSON''"])
    apply (rule exI[of _ "'' ''"])
    apply (rule exI[of _ "''x} '' @ [CHR 0x60, CHR 0x60, CHR 0x60] @ '' ''"])
    apply (rule exI[of _ "'' ''"])
    apply (rule exI[of _ "[]"])
    apply (simp add: json_marker_def isspace_def)
    done
  then have h1: \<open>contains_fenced_block ?t ''ab'' ''{x} ``` }''\<close>
    unfolding contains_fenced_block_def by (intro exI[of _ "drop 2 ?t"]) simp
  have "re_search_fence '' {a} '' = None"
    by (simp add: match_at_def)
  then have h2: "\<forall>pre g. \<not> contains_fenced_block '' {a} '' pre g"
    using search_None_no_fenced_block by blast
  note th1 = extract_json_from_response_spec[of ?t "''ab''" \<open>''{x} ``` }''\<close>, THEN conjunct1, THEN mp, OF h1]
  note th2 = extract_json_from_response_spec[of "'' {a} ''", THEN conjunct2, THEN conjunct1, THEN mp, OF h2]
  show ?thesis using h1 h2 th1 th2 by blast
qed

text \<open>
  Claim C3 as stated says that an input without a fenced block, whose trimmed text is
  not wrapped in braces, is passed through unchanged. The function returns the trimmed
  text instead: the input \<open>" abc "\<close> gives \<open>"abc"\<close>.
\<close>

theorem extract_json_raw_text_counterexample:
  "(\<forall>pre g. \<not> contains_fenced_block '' abc '' pre g)
    \<and> \<not> (startswith_brace (strip '' abc '') \<and> endswith_brace (strip '' abc ''))
    \<and> extract_json_from_response '' abc '' \<noteq> '' abc ''"
proof -
  have n: "re_search_fence '' abc '' = None"
    by (simp add: match_at_def)
  then have "\<forall>pre g. \<not> contains_fenced_block '' abc '' pre g"
    using search_None_no_fenced_block by blast
  moreover have "strip '' abc '' = ''abc''"
    by (simp add: strip_def lstrip_def rstrip_def isspace_def)
  ultimately show ?thesis
    using n by (simp add: extract_json_from_response_def startswith_brace_def)
qed

section \<open>Properties of the retry loop and the handler\<close>

lemma attempt_body_fails:
  "attempt_fails e name i \<Longrightarrow>
     \<exists>m. attempt_body e name i st
           = api_failed i m (st\<lparr>trace := trace st @ [ApiCall (build_prompt name)]\<rparr>)"
  by (auto simp: attempt_fails_def attempt_body_def validate_reply_def Let_def
           split: call_outcome.splits option.splits json.splits)

lemma api_failed_continue:
  "Suc i < max_retries \<Longrightarrow>
     api_failed i m st
       = (Continue, st\<lparr>openai_error_message := Some (''OpenAI API error: '' @ m),
                        trace := trace st @ [Sleep (2 ^ i)]\<rparr>)"
  by (simp add: api_failed_def Let_def)

lemma retry_loop_fail_step:
  assumes "Suc i < max_retries" and "attempt_fails e name i"
  shows "\<exists>m. retry_loop e name i st
           = retry_loop e name (Suc i)
               (st\<lparr>openai_error_message := m,
                   trace := trace st @ [ApiCall (build_prompt name), Sleep (2 ^ i)]\<rparr>)"
proof -
  from attempt_body_fails[OF assms(2), of st] obtain m where
    m: "attempt_body e name i st
          = api_failed i m (st\<lparr>trace := trace st @ [ApiCall (build_prompt name)]\<rparr>)"
    by blast
  have "i < max_retries" using assms(1) by simp
  then have "retry_loop e name i st
      = retry_loop e name (Suc i)
          (st\<lparr>openai_error_message := Some (''OpenAI API error: '' @ m),
              trace := trace st @ [ApiCall (build_prompt name), Sleep (2 ^ i)]\<rparr>)"
    by (subst retry_loop.simps) (simp add: m api_failed_continue[OF assms(1)])
  then show ?thesis by blast
qed

lemma failed_attempts_same: "failed_attempts p a a = []"
  by (simp add: failed_attempts_def)

lemma failed_attempts_Suc:
  "a \<le> k \<Longrightarrow> failed_attempts p a (Suc k) = failed_attempts p a k @ [ApiCall p, Sleep (2 ^ k)]"
  by (simp add: failed_attempts_def)

lemma retry_loop_failures:
  "k < max_retries \<Longrightarrow> a \<le> k \<Longrightarrow> (\<forall>i. a \<le> i \<and> i < k \<longrightarrow> attempt_fails e name i) \<Longrightarrow>
     \<exists>m. retry_loop e name a st
           = retry_loop e name k
               (st\<lparr>openai_error_message := m,
                   trace := trace st @ failed_attempts (build_prompt name) a k\<rparr>)"
proof (induction k)
  case 0
  then show ?case
    by (intro exI[of _ "openai_error_message st"]) (simp add: failed_attempts_same)
next
  case (Suc k)
  show ?case
  proof (cases "a = Suc k")
    case True
    then show ?thesis
      by (intro exI[of _ "openai_error_message st"]) (simp add: failed_attempts_same)
  next
    case False
    then have ak: "a \<le> k" using Suc.prems by simp
    have "k < max_retries" using Suc.prems by simp
    from Suc.IH[OF this ak] Suc.prems obtain m where
      m: "retry_loop e name a st
            = retry_loop e name k
                (st\<lparr>openai_error_message := m,
                    trace := trace st @ failed_attempts (build_prompt name) a k\<rparr>)"
      by auto
    have "attempt_fails e name k" using Suc.prems ak by simp
    from retry_loop_fail_step[OF Suc.prems(1) this] obtain m' where
      "retry_loop e name k
         (st\<lparr>openai_error_message := m,
             trace := trace st @ failed_attempts (build_prompt name) a k\<rparr>)
        = retry_loop e name (Suc k)
           (st\<lparr>openai_error_message := m,
               trace := trace st @ failed_attempts (build_prompt name) a k\<rparr>
             \<lparr>openai_error_message := m',
              trace := trace (st\<lparr>openai_error_message := m,
                  trace := trace st @ failed_attempts (build_prompt name) a k\<rparr>)
                  @ [ApiCall (build_prompt name), Sleep (2 ^ k)]\<rparr>)"
      by blast
    then show ?thesis using m
      by (intro exI[of _ m']) (simp add: failed_attempts_Suc[OF ak])
  qed
qed

lemma retry_loop_valid:
  assumes "k < max_retries"
    and "complete e k (build_prompt name) = Returns content"
    and "json_loads e (extract_json_from_response (strip content)) = Some (JObj kv)"
    and "dict_get kv ''prediction'' JNull = pv"
    and "pv = JStr ''Realistic'' \<or> pv = JStr ''Not Realistic''"
  shows "retry_loop e name k st
           = (None, st\<lparr>trace := trace st @ [ApiCall (build_prompt name)],
                        prediction_result := pv,
                        ai_reason := (if pv = JStr ''Not Realistic''
                                      then dict_get kv ''reason'' JNull else JNull),
                        openai_error_message := None\<rparr>)"
  using assms
  by (subst retry_loop.simps) (auto simp: attempt_body_def validate_reply_def Let_def)

lemma retry_loop_bad_json:
  assumes "k < max_retries"
    and "complete e k (build_prompt name) = Returns content"
    and "json_loads e (extract_json_from_response (strip content)) = None"
  shows "retry_loop e name k st
           = (None, st\<lparr>trace := trace st @ [ApiCall (build_prompt name)],
                        openai_error_message :=
                          Some ''Invalid JSON response format from model''\<rparr>)"
  using assms
  by (subst retry_loop.simps) (simp add: attempt_body_def validate_reply_def Let_def)

lemma retry_loop_bad_prediction:
  assumes "k < max_retries"
    and "complete e k (build_prompt name) = Returns content"
    and "json_loads e (extract_json_from_response (strip content)) = Some (JObj kv)"
    and "dict_get kv ''prediction'' JNull = pv"
    and "pv \<noteq> JStr ''Realistic''" and "pv \<noteq> JStr ''Not Realistic''"
  shows "retry_loop e name k st
           = (None, st\<lparr>trace := trace st @ [ApiCall (build_prompt name)],
                        openai_error_message :=
                          Some (''Invalid prediction value from model: ''
                                  @ py_str (py_repr e) pv)\<rparr>)"
  using assms
  by (subst retry_loop.simps) (simp add: attempt_body_def validate_reply_def Let_def)

lemma retry_loop_last_raise:
  assumes "complete e 2 (build_prompt name) = Raises m"
  shows "retry_loop e name 2 st
           = (Some (Inr (error_response (''OpenAI API error: '' @ m) 500)),
              st\<lparr>trace := trace st @ [ApiCall (build_prompt name)],
                 openai_error_message := Some (''OpenAI API error: '' @ m)\<rparr>)"
  using assms
  by (subst retry_loop.simps)
     (simp add: attempt_body_def Let_def api_failed_def max_retries_def)

lemma map_of_Some_nonempty: "map_of kv k = Some v \<Longrightarrow> kv \<noteq> []"
  by auto

lemma predict_valid_request:
  assumes "map_of kv ''name'' = Some (JStr raw)" and "normalize_name raw \<noteq> []"
  shows "predict_body e (BodyJson (JObj kv))
           = (case retry_loop e (normalize_name raw) 0 initial_state of
                (Some (Inr r), st) \<Rightarrow> (Inr r, trace st)
              | (Some (Inl x), st) \<Rightarrow> (Inl x, trace st)
              | (None, st) \<Rightarrow> (Inr (after_loop (normalize_name raw) st), trace st))"
  using assms map_of_Some_nonempty[OF assms(1)]
  by (simp add: predict_body_def dict_get_def Let_def)


lemma attempt_body_shape:
  assumes "attempt_body e name a st = (c, st1)"
  shows "(\<exists>ext. trace st1 = trace st @ ApiCall (build_prompt name) # ext
              \<and> (ext = [] \<or> (\<exists>n. ext = [Sleep n])))
         \<and> (\<forall>r. c = Return r \<longrightarrow> (\<exists>m. r = error_response m 500))
         \<and> (\<forall>x. c = Propagate x \<longrightarrow>
               (\<exists>n. x = BaseException n \<and> complete e a (build_prompt name) = RaisesBase n))"
proof (cases "complete e a (build_prompt name)")
  case (Raises m)
  then show ?thesis using assms
    by (auto simp: attempt_body_def api_failed_def Let_def split: if_splits)
next
  case (RaisesBase n)
  then show ?thesis using assms
    by (auto simp: attempt_body_def Let_def)
next
  case (Returns content)
  show ?thesis
  proof (cases "validate_reply e (extract_json_from_response (strip content))
                  (st\<lparr>trace := trace st @ [ApiCall (build_prompt name)]\<rparr>)")
    case (Inl m)
    then show ?thesis using assms Returns
      by (auto simp: attempt_body_def api_failed_def Let_def split: if_splits)
  next
    case (Inr st2)
    then have "trace st2 = trace st @ [ApiCall (build_prompt name)]"
      by (auto simp: validate_reply_def Let_def split: option.splits json.splits if_splits)
    then show ?thesis using assms Returns Inr
      by (auto simp: attempt_body_def Let_def)
  qed
qed

lemma retry_loop_shape:
  "retry_loop e name a st = (ro, st') \<Longrightarrow>
     (\<exists>ext. trace st' = trace st @ ext
         \<and> length (filter is_api_call ext) \<le> max_retries - a
         \<and> (\<forall>p. ApiCall p \<in> set ext \<longrightarrow> p = build_prompt name))
     \<and> (\<forall>r. ro = Some (Inr r) \<longrightarrow> (\<exists>m. r = error_response m 500))
     \<and> (\<forall>x. ro = Some (Inl x) \<longrightarrow>
           (\<exists>n i. x = BaseException n \<and> i < max_retries
                  \<and> complete e i (build_prompt name) = RaisesBase n))"
proof (induction e name a st arbitrary: ro st' rule: retry_loop.induct)
  case (1 e name attempt st)
  show ?case
  proof (cases "attempt < max_retries")
    case False
    then have "ro = None" "st' = st"
      using "1.prems" by (simp_all add: retry_loop.simps[of e name attempt st])
    then show ?thesis by simp
  next
    case True
    obtain c st1 where ab: "attempt_body e name attempt st = (c, st1)"
      by (cases "attempt_body e name attempt st") auto
    from attempt_body_shape[OF ab] obtain ext where
      ext: "trace st1 = trace st @ ApiCall (build_prompt name) # ext"
           "ext = [] \<or> (\<exists>n. ext = [Sleep n])"
      and ret: "\<forall>r. c = Return r \<longrightarrow> (\<exists>m. r = error_response m 500)"
      and pg: "\<forall>x. c = Propagate x \<longrightarrow>
               (\<exists>n. x = BaseException n \<and> complete e attempt (build_prompt name) = RaisesBase n)"
      by blast
    have one: "length (filter is_api_call (ApiCall (build_prompt name) # ext)) = 1"
      using ext(2) by auto
    have prompts: "\<forall>p. ApiCall p \<in> set (ApiCall (build_prompt name) # ext) \<longrightarrow> p = build_prompt name"
      using ext(2) by auto
    have tr1: "\<exists>ext. trace st1 = trace st @ ext
         \<and> length (filter is_api_call ext) \<le> max_retries - attempt
         \<and> (\<forall>p. ApiCall p \<in> set ext \<longrightarrow> p = build_prompt name)"
      using ext(1) one prompts True
      by (intro exI[of _ "ApiCall (build_prompt name) # ext"]) auto
    show ?thesis
    proof (cases c)
      case Continue
      then have rl: "retry_loop e name (attempt + 1) st1 = (ro, st')"
        using "1.prems" True ab by (simp add: retry_loop.simps[of e name attempt st])
      from "1.IH"[OF True ab[symmetric] Continue rl] obtain ext2 where
        e2: "trace st' = trace st1 @ ext2"
            "length (filter is_api_call ext2) \<le> max_retries - (attempt + 1)"
            "\<forall>p. ApiCall p \<in> set ext2 \<longrightarrow> p = build_prompt name"
        and r2: "\<forall>r. ro = Some (Inr r) \<longrightarrow> (\<exists>m. r = error_response m 500)"
        and x2: "\<forall>x. ro = Some (Inl x) \<longrightarrow>
           (\<exists>n i. x = BaseException n \<and> i < max_retries
                  \<and> complete e i (build_prompt name) = RaisesBase n)"
        by blast
      have "trace st' = trace st @ (ApiCall (build_prompt name) # ext) @ ext2"
        using e2(1) ext(1) by simp
      moreover have "length (filter is_api_call ((ApiCall (build_prompt name) # ext) @ ext2))
                       \<le> max_retries - attempt"
        using one e2(2) True by simp
      moreover have "\<forall>p. ApiCall p \<in> set ((ApiCall (build_prompt name) # ext) @ ext2)
                       \<longrightarrow> p = build_prompt name"
        using prompts e2(3) by auto
      ultimately show ?thesis using r2 x2 by blast
    next
      case Break
      then have "ro = None" "st' = st1"
        using "1.prems" True ab by (simp_all add: retry_loop.simps[of e name attempt st])
      then show ?thesis using tr1 by simp
    next
      case (Return r)
      then have "ro = Some (Inr r)" "st' = st1"
        using "1.prems" True ab by (simp_all add: retry_loop.simps[of e name attempt st])
      then show ?thesis using tr1 ret Return by simp
    next
      case (Propagate x)
      then have "ro = Some (Inl x)" "st' = st1"
        using "1.prems" True ab by (simp_all add: retry_loop.simps[of e name attempt st])
      moreover obtain n where "x = BaseException n"
          "complete e attempt (build_prompt name) = RaisesBase n"
        using pg Propagate by blast
      ultimately show ?thesis using tr1 True by auto
    qed
  qed
qed

lemma after_loop_shape:
  "(status (after_loop name st) = 200 \<or> status (after_loop name st) = 500)
   \<and> (\<exists>fields. body (after_loop name st) = JObj fields)
   \<and> (status (after_loop name st) = 200 \<longrightarrow>
        (\<exists>rest. body (after_loop name st) = JObj ((''name'', JStr name) # rest)))"
  by (simp add: after_loop_def error_response_def)


lemma predict_of_body:
  "predict_body e req = (Inr r, tr) \<Longrightarrow> predict e req = (Inr r, tr)"
  by (simp add: predict_def)

lemma predict_valid_request_loop:
  assumes "map_of kv ''name'' = Some (JStr raw)" and "normalize_name raw \<noteq> []"
    and "retry_loop e (normalize_name raw) 0 initial_state = (ro, st)"
  shows "predict e (BodyJson (JObj kv))
           = (case ro of
                None \<Rightarrow> Inr (after_loop (normalize_name raw) st)
              | Some (Inr r) \<Rightarrow> Inr r
              | Some (Inl x) \<Rightarrow>
                  if is_Exception x
                  then Inr (error_response ''An unexpected server error occurred'' 500)
                  else Inl x,
              trace st)"
  using predict_valid_request[OF assms(1,2), of e] assms(3)
  by (auto simp: predict_def split: option.splits sum.splits)

lemma Raises_attempt_fails:
  "complete e i (build_prompt name) = Raises m \<Longrightarrow> attempt_fails e name i"
  by (simp add: attempt_fails_def)

lemma failed_attempts_0_2:
  "failed_attempts p 0 2 = [ApiCall p, Sleep 1, ApiCall p, Sleep 2]"
proof -
  have "[0..<2] = [0, Suc 0]" by (simp add: upt_rec numeral_2_eq_2)
  then show ?thesis by (simp add: failed_attempts_def)
qed

text \<open>
  Claim C1. A request that passes the local checks, with the completion call raising on
  attempts 1 and 2 (indices 0 and 1). If the call succeeds on attempt 3 with a reply
  whose extracted JSON has prediction \<open>Realistic\<close> or \<open>Not Realistic\<close>, the handler
  makes three calls with exactly two sleeps between them, of 1 and then 2 seconds
  (\<open>2 ^ attempt\<close> for the 0-based attempt), and answers 200 with that prediction. If the
  call raises on attempt 3 as well, no sleep follows the third call and the handler
  returns at once status 500 with the body \<open>{"error": m}\<close>, where \<open>m\<close> is the message
  recorded for the last API error.
\<close>

theorem retry_backoff_and_exhaustion:
  assumes "map_of kv ''name'' = Some (JStr raw)"
    and "name = normalize_name raw" and "name \<noteq> []"
    and "p = build_prompt name"
    and "complete e 0 p = Raises m0" and "complete e 1 p = Raises m1"
  shows "(\<forall>content rkv pv.
            complete e 2 p = Returns content
            \<and> json_loads e (extract_json_from_response (strip content)) = Some (JObj rkv)
            \<and> dict_get rkv ''prediction'' JNull = JStr pv
            \<and> (pv = ''Realistic'' \<or> pv = ''Not Realistic'')
            \<longrightarrow> predict e (BodyJson (JObj kv))
                  = (Inr \<lparr>body = JObj ([(''name'', JStr name), (''prediction'', JStr pv)]
                                      @ (if pv = ''Realistic'' then [(''reason'', JStr '' '')]
                                         else [])),
                          status = 200\<rparr>,
                     [ApiCall p, Sleep 1, ApiCall p, Sleep 2, ApiCall p]))
       \<and> (\<forall>m2. complete e 2 p = Raises m2
            \<longrightarrow> predict e (BodyJson (JObj kv))
                  = (Inr \<lparr>body = JObj [(''error'', JStr (''OpenAI API error: '' @ m2))],
                          status = 500\<rparr>,
                     [ApiCall p, Sleep 1, ApiCall p, Sleep 2, ApiCall p]))"
proof -
  have f: "\<forall>i. 0 \<le> i \<and> i < 2 \<longrightarrow> attempt_fails e name i"
  proof (intro allI impI)
    fix i :: nat assume "0 \<le> i \<and> i < 2"
    then have "i = 0 \<or> i = 1" by auto
    then show "attempt_fails e name i"
      using assms(4,5,6) Raises_attempt_fails by auto
  qed
  have "(2::nat) < max_retries" by (simp add: max_retries_def)
  from retry_loop_failures[OF this _ f, of initial_state] obtain m where
    two: "retry_loop e name 0 initial_state
            = retry_loop e name 2
                (initial_state\<lparr>openai_error_message := m,
                    trace := [ApiCall p, Sleep 1, ApiCall p, Sleep 2]\<rparr>)"
    using assms(4) by (auto simp: failed_attempts_0_2 initial_state_def)
  show ?thesis
  proof (intro conjI allI impI)
    fix content rkv pv
    assume a: "complete e 2 p = Returns content
            \<and> json_loads e (extract_json_from_response (strip content)) = Some (JObj rkv)
            \<and> dict_get rkv ''prediction'' JNull = JStr pv
            \<and> (pv = ''Realistic'' \<or> pv = ''Not Realistic'')"
    have "(2::nat) < max_retries" by (simp add: max_retries_def)
    from retry_loop_valid[OF this, of e name content rkv "JStr pv"] a assms(4)
    have v: "retry_loop e name 2
               (initial_state\<lparr>openai_error_message := m,
                   trace := [ApiCall p, Sleep 1, ApiCall p, Sleep 2]\<rparr>)
             = (None, initial_state\<lparr>openai_error_message := m,
                   trace := [ApiCall p, Sleep 1, ApiCall p, Sleep 2]\<rparr>
                   \<lparr>trace := [ApiCall p, Sleep 1, ApiCall p, Sleep 2] @ [ApiCall p],
                    prediction_result := JStr pv,
                    ai_reason := (if JStr pv = JStr ''Not Realistic''
                                  then dict_get rkv ''reason'' JNull else JNull),
                    openai_error_message := None\<rparr>)"
      by auto
    note pr = predict_valid_request_loop[OF assms(1) assms(3)[unfolded assms(2)]
                 two[unfolded assms(2) v[unfolded assms(2)]]]
    show "predict e (BodyJson (JObj kv))
                  = (Inr \<lparr>body = JObj ([(''name'', JStr name), (''prediction'', JStr pv)]
                                      @ (if pv = ''Realistic'' then [(''reason'', JStr '' '')]
                                         else [])),
                          status = 200\<rparr>,
                     [ApiCall p, Sleep 1, ApiCall p, Sleep 2, ApiCall p])"
      using pr a assms(2) by (auto simp: after_loop_def)
  next
    fix m2
    assume a: "complete e 2 p = Raises m2"
    from retry_loop_last_raise[of e name m2] a assms(4)
    have v: "retry_loop e name 2
               (initial_state\<lparr>openai_error_message := m,
                   trace := [ApiCall p, Sleep 1, ApiCall p, Sleep 2]\<rparr>)
             = (Some (Inr (error_response (''OpenAI API error: '' @ m2) 500)),
                initial_state\<lparr>openai_error_message := m,
                   trace := [ApiCall p, Sleep 1, ApiCall p, Sleep 2]\<rparr>
                   \<lparr>trace := [ApiCall p, Sleep 1, ApiCall p, Sleep 2] @ [ApiCall p],
                    openai_error_message := Some (''OpenAI API error: '' @ m2)\<rparr>)"
      by auto
    note pr = predict_valid_request_loop[OF assms(1) assms(3)[unfolded assms(2)]
                 two[unfolded assms(2) v[unfolded assms(2)]]]
    show "predict e (BodyJson (JObj kv))
            = (Inr \<lparr>body = JObj [(''error'', JStr (''OpenAI API error: '' @ m2))],
                    status = 500\<rparr>,
               [ApiCall p, Sleep 1, ApiCall p, Sleep 2, ApiCall p])"
      using pr by (simp add: error_response_def)
  qed
qed

lemma example_name: "normalize_name ''  John   Doe '' = ''John Doe''"
  by (simp add: normalize_name_def strip_def lstrip_def rstrip_def isspace_def)

lemma example_fenced_reply:
  \<open>extract_json_from_response (strip ''```json {"prediction":"Realistic"} ```'')
     = ''{"prediction":"Realistic"}''\<close>
  by (simp add: extract_json_from_response_def match_at_def fence_close_def isspace_def ieq_def
        strip_def lstrip_def rstrip_def)

theorem retry_backoff_and_exhaustion_witness:
  \<open>predict (example_env (\<lambda>i. if i < 2 then Raises ''timeout''
                              else Returns ''```json {"prediction":"Realistic"} ```''))
      example_request
     = (Inr \<lparr>body = JObj [(''name'', JStr ''John Doe''), (''prediction'', JStr ''Realistic''),
                          (''reason'', JStr '' '')],
             status = 200\<rparr>,
        [ApiCall (build_prompt ''John Doe''), Sleep 1, ApiCall (build_prompt ''John Doe''),
         Sleep 2, ApiCall (build_prompt ''John Doe'')])
   \<and> predict (example_env (\<lambda>i. Raises ''timeout'')) example_request
       = (Inr \<lparr>body = JObj [(''error'', JStr ''OpenAI API error: timeout'')], status = 500\<rparr>,
          [ApiCall (build_prompt ''John Doe''), Sleep 1, ApiCall (build_prompt ''John Doe''),
           Sleep 2, ApiCall (build_prompt ''John Doe'')])\<close>
proof -
  let ?e1 = \<open>example_env (\<lambda>i. if i < 2 then Raises ''timeout''
                                   else Returns ''```json {"prediction":"Realistic"} ```'')\<close>
  let ?e2 = "example_env (\<lambda>i. Raises ''timeout'')"
  let ?kv = "[(''name'', JStr ''  John   Doe '')]"
  let ?p = "build_prompt ''John Doe''"
  have h1: "map_of ?kv ''name'' = Some (JStr ''  John   Doe '')" by simp
  have h2: "''John Doe'' = normalize_name ''  John   Doe ''" by (simp add: example_name)
  have h3: "''John Doe'' \<noteq> []" by simp
  have h4: "?p = build_prompt ''John Doe''" by simp
  have a0: "complete ?e1 0 ?p = Raises ''timeout''" by (simp add: example_env_def)
  have a1: "complete ?e1 1 ?p = Raises ''timeout''" by (simp add: example_env_def)
  have b0: "complete ?e2 0 ?p = Raises ''timeout''" by (simp add: example_env_def)
  have b1: "complete ?e2 1 ?p = Raises ''timeout''" by (simp add: example_env_def)
  have a2: \<open>complete ?e1 2 ?p = Returns ''```json {"prediction":"Realistic"} ```''
     \<and> json_loads ?e1 (extract_json_from_response (strip ''```json {"prediction":"Realistic"} ```''))
         = Some (JObj [(''prediction'', JStr ''Realistic'')])
     \<and> dict_get [(''prediction'', JStr ''Realistic'')] ''prediction'' JNull = JStr ''Realistic''
     \<and> (''Realistic'' = ''Realistic'' \<or> ''Realistic'' = ''Not Realistic'')\<close>
    by (simp add: example_fenced_reply) (simp add: example_env_def example_loads_def dict_get_def)
  have b2: "complete ?e2 2 ?p = Raises ''timeout''" by (simp add: example_env_def)
  note t1 = retry_backoff_and_exhaustion[OF h1 h2 h3 h4 a0 a1, THEN conjunct1, rule_format, OF a2]
  note t2 = retry_backoff_and_exhaustion[OF h1 h2 h3 h4 b0 b1, THEN conjunct2, rule_format, OF b2]
  show ?thesis using t1 t2 by (simp add: example_request_def)
qed

text \<open>
  Claim C2. Whenever attempt \<open>k\<close> of the loop is reached (all attempts before it failed)
  and its call returns a reply whose extracted text does not parse, or parses to an
  object whose \<open>prediction\<close> is not exactly \<open>Realistic\<close> or \<open>Not Realistic\<close>, the trace
  ends with the call of attempt \<open>k\<close>: no sleep and no further attempt follow. The
  handler answers status 500 with a body \<open>{"error": m}\<close> whose message \<open>m\<close> carries
  \<open>Invalid JSON response format from model\<close> in the first case and names the offending
  value in the second. The two responses differ from each other, and both differ from
  the response to an API failure that outlasts the retries.
\<close>

theorem invalid_reply_not_retried:
  assumes "map_of kv ''name'' = Some (JStr raw)"
    and "name = normalize_name raw" and "name \<noteq> []"
    and "p = build_prompt name"
    and "k < 3" and "\<forall>i. i < k \<longrightarrow> attempt_fails e name i"
    and "complete e k p = Returns content"
    and "parsed = json_loads e (extract_json_from_response (strip content))"
  shows "(parsed = None \<longrightarrow>
            predict e (BodyJson (JObj kv))
              = (Inr \<lparr>body = JObj [(''error'', JStr
                   ''Failed to get prediction. Last error: Invalid JSON response format from model'')],
                      status = 500\<rparr>,
                 failed_attempts p 0 k @ [ApiCall p]))
       \<and> (\<forall>rkv pv. parsed = Some (JObj rkv) \<and> dict_get rkv ''prediction'' JNull = pv
              \<and> pv \<noteq> JStr ''Realistic'' \<and> pv \<noteq> JStr ''Not Realistic'' \<longrightarrow>
            predict e (BodyJson (JObj kv))
              = (Inr \<lparr>body = JObj [(''error'', JStr
                   (''Failed to get prediction. Last error: Invalid prediction value from model: ''
                      @ py_str (py_repr e) pv))],
                      status = 500\<rparr>,
                 failed_attempts p 0 k @ [ApiCall p]))
       \<and> (\<forall>x. \<lparr>body = JObj [(''error'', JStr
                   ''Failed to get prediction. Last error: Invalid JSON response format from model'')],
                status = 500\<rparr>
              \<noteq> \<lparr>body = JObj [(''error'', JStr
                   (''Failed to get prediction. Last error: Invalid prediction value from model: ''
                      @ x))],
                status = 500\<rparr>)
       \<and> (\<forall>x m. \<lparr>body = JObj [(''error'', JStr (''OpenAI API error: '' @ m))], status = 500\<rparr>
              \<noteq> \<lparr>body = JObj [(''error'', JStr
                   ''Failed to get prediction. Last error: Invalid JSON response format from model'')],
                status = 500\<rparr>
            \<and> \<lparr>body = JObj [(''error'', JStr (''OpenAI API error: '' @ m))], status = 500\<rparr>
              \<noteq> \<lparr>body = JObj [(''error'', JStr
                   (''Failed to get prediction. Last error: Invalid prediction value from model: ''
                      @ x))],
                status = 500\<rparr>)"
proof -
  have k: "k < max_retries" using assms(5) by (simp add: max_retries_def)
  have f: "\<forall>i. 0 \<le> i \<and> i < k \<longrightarrow> attempt_fails e name i"
    using assms(6) by simp
  from retry_loop_failures[OF k _ f, of initial_state] obtain m where
    reach: "retry_loop e name 0 initial_state
            = retry_loop e name k
                (initial_state\<lparr>openai_error_message := m,
                    trace := failed_attempts p 0 k\<rparr>)"
    using assms(4) by (auto simp: initial_state_def)
  let ?st = "initial_state\<lparr>openai_error_message := m, trace := failed_attempts p 0 k\<rparr>"
  note c = assms(7)[unfolded assms(4)]
  show ?thesis
  proof (intro conjI allI impI)
    assume "parsed = None"
    then have n: "json_loads e (extract_json_from_response (strip content)) = None"
      using assms(8) by simp
    note l = reach[unfolded retry_loop_bad_json[OF k c n, of ?st]]
    note pr = predict_valid_request_loop[OF assms(1) assms(3)[unfolded assms(2)]
                 l[unfolded assms(2)]]
    show "predict e (BodyJson (JObj kv))
              = (Inr \<lparr>body = JObj [(''error'', JStr
                   ''Failed to get prediction. Last error: Invalid JSON response format from model'')],
                      status = 500\<rparr>,
                 failed_attempts p 0 k @ [ApiCall p])"
      using pr assms(2,4) by (simp add: after_loop_def initial_state_def error_response_def)
  next
    fix rkv pv
    assume a: "parsed = Some (JObj rkv) \<and> dict_get rkv ''prediction'' JNull = pv
              \<and> pv \<noteq> JStr ''Realistic'' \<and> pv \<noteq> JStr ''Not Realistic''"
    then have n: "json_loads e (extract_json_from_response (strip content)) = Some (JObj rkv)"
      using assms(8) by simp
    have a2: "dict_get rkv ''prediction'' JNull = pv" "pv \<noteq> JStr ''Realistic''"
      "pv \<noteq> JStr ''Not Realistic''" using a by simp_all
    note l = reach[unfolded retry_loop_bad_prediction[OF k c n a2, of ?st]]
    note pr = predict_valid_request_loop[OF assms(1) assms(3)[unfolded assms(2)]
                 l[unfolded assms(2)]]
    show "predict e (BodyJson (JObj kv))
              = (Inr \<lparr>body = JObj [(''error'', JStr
                   (''Failed to get prediction. Last error: Invalid prediction value from model: ''
                      @ py_str (py_repr e) pv))],
                      status = 500\<rparr>,
                 failed_attempts p 0 k @ [ApiCall p])"
      using pr assms(2,4) by (simp add: after_loop_def initial_state_def error_response_def)
  qed simp_all
qed

lemma example_bare_reply:
  \<open>extract_json_from_response (strip ''{"prediction":"maybe"}'') = ''{"prediction":"maybe"}''\<close>
  by (simp add: extract_json_from_response_def match_at_def isspace_def
        strip_def lstrip_def rstrip_def)

lemma example_lowercase_reply:
  \<open>extract_json_from_response (strip ''{"prediction":"realistic"}'')
     = ''{"prediction":"realistic"}''\<close>
  by (simp add: extract_json_from_response_def match_at_def isspace_def
        strip_def lstrip_def rstrip_def)

lemma example_text_reply:
  \<open>extract_json_from_response (strip ''I think so'') = ''I think so''\<close>
  by (simp add: extract_json_from_response_def match_at_def isspace_def
        strip_def lstrip_def rstrip_def startswith_brace_def)

theorem invalid_reply_not_retried_witness:
  \<open>predict (example_env (\<lambda>i. if i < 1 then Raises ''timeout'' else Returns ''I think so''))
      example_request
     = (Inr \<lparr>body = JObj [(''error'', JStr
          ''Failed to get prediction. Last error: Invalid JSON response format from model'')],
             status = 500\<rparr>,
        [ApiCall (build_prompt ''John Doe''), Sleep 1, ApiCall (build_prompt ''John Doe'')])
   \<and> predict (example_env (\<lambda>i. Returns ''{"prediction":"maybe"}'')) example_request
     = (Inr \<lparr>body = JObj [(''error'', JStr
          ''Failed to get prediction. Last error: Invalid prediction value from model: maybe'')],
             status = 500\<rparr>,
        [ApiCall (build_prompt ''John Doe'')])
   \<and> predict (example_env (\<lambda>i. Returns ''{"prediction":"realistic"}'')) example_request
     = (Inr \<lparr>body = JObj [(''error'', JStr
          ''Failed to get prediction. Last error: Invalid prediction value from model: realistic'')],
             status = 500\<rparr>,
        [ApiCall (build_prompt ''John Doe'')])\<close>
proof -
  let ?e1 = "example_env (\<lambda>i. if i < 1 then Raises ''timeout'' else Returns ''I think so'')"
  let ?e2 = \<open>example_env (\<lambda>i. Returns ''{"prediction":"maybe"}'')\<close>
  let ?e3 = \<open>example_env (\<lambda>i. Returns ''{"prediction":"realistic"}'')\<close>
  let ?kv = "[(''name'', JStr ''  John   Doe '')]"
  let ?p = "build_prompt ''John Doe''"
  have h1: "map_of ?kv ''name'' = Some (JStr ''  John   Doe '')" by simp
  have h2: "''John Doe'' = normalize_name ''  John   Doe ''" by (simp add: example_name)
  have h3: "''John Doe'' \<noteq> []" by simp
  have h4: "?p = build_prompt ''John Doe''" by simp
  have k1: "(1::nat) < 3" and k0: "(0::nat) < 3" by simp_all
  have f1: "\<forall>i. i < 1 \<longrightarrow> attempt_fails ?e1 ''John Doe'' i"
    by (simp add: attempt_fails_def example_env_def)
  have f2: "\<forall>i. i < 0 \<longrightarrow> attempt_fails ?e2 ''John Doe'' i" by simp
  have f3: "\<forall>i. i < 0 \<longrightarrow> attempt_fails ?e3 ''John Doe'' i" by simp
  have c1: "complete ?e1 1 ?p = Returns ''I think so''" by (simp add: example_env_def)
  have c2: \<open>complete ?e2 0 ?p = Returns ''{"prediction":"maybe"}''\<close>
    by (simp add: example_env_def)
  have c3: \<open>complete ?e3 0 ?p = Returns ''{"prediction":"realistic"}''\<close>
    by (simp add: example_env_def)
  have p1: "None = json_loads ?e1 (extract_json_from_response (strip ''I think so''))"
    by (simp add: example_text_reply) (simp add: example_env_def example_loads_def)
  have p2: \<open>Some (JObj [(''prediction'', JStr ''maybe'')])
      = json_loads ?e2 (extract_json_from_response (strip ''{"prediction":"maybe"}''))\<close>
    by (simp add: example_bare_reply) (simp add: example_env_def example_loads_def)
  have p3: \<open>Some (JObj [(''prediction'', JStr ''realistic'')])
      = json_loads ?e3 (extract_json_from_response (strip ''{"prediction":"realistic"}''))\<close>
    by (simp add: example_lowercase_reply) (simp add: example_env_def example_loads_def)
  have q2: "Some (JObj [(''prediction'', JStr ''maybe'')]) = Some (JObj [(''prediction'', JStr ''maybe'')])
      \<and> dict_get [(''prediction'', JStr ''maybe'')] ''prediction'' JNull = JStr ''maybe''
      \<and> JStr ''maybe'' \<noteq> JStr ''Realistic'' \<and> JStr ''maybe'' \<noteq> JStr ''Not Realistic''"
    by (simp add: dict_get_def)
  have q3: "Some (JObj [(''prediction'', JStr ''realistic'')])
        = Some (JObj [(''prediction'', JStr ''realistic'')])
      \<and> dict_get [(''prediction'', JStr ''realistic'')] ''prediction'' JNull = JStr ''realistic''
      \<and> JStr ''realistic'' \<noteq> JStr ''Realistic'' \<and> JStr ''realistic'' \<noteq> JStr ''Not Realistic''"
    by (simp add: dict_get_def)
  note t1 = invalid_reply_not_retried[OF h1 h2 h3 h4 k1 f1 c1 p1, THEN conjunct1, rule_format, OF refl]
  note t2 = invalid_reply_not_retried[OF h1 h2 h3 h4 k0 f2 c2 p2, THEN conjunct2, THEN conjunct1,
              rule_format, OF q2]
  note t3 = invalid_reply_not_retried[OF h1 h2 h3 h4 k0 f3 c3 p3, THEN conjunct2, THEN conjunct1,
              rule_format, OF q3]
  show ?thesis using t1 t2 t3
    by (simp add: example_request_def failed_attempts_def)
qed

text \<open>
  Claim C4. For a request that passes the local checks and whose retry loop ends with
  a valid prediction: for \<open>Realistic\<close> the response is 200 with exactly the fields
  \<open>name\<close>, \<open>prediction\<close> and \<open>reason\<close>, the reason being one space; for
  \<open>Not Realistic\<close> it is 200 with exactly \<open>name\<close> and \<open>prediction\<close>, whatever reason the
  model supplied.
\<close>

theorem success_response_shape:
  assumes "map_of kv ''name'' = Some (JStr raw)"
    and "name = normalize_name raw" and "name \<noteq> []"
    and "retry_loop e name 0 initial_state = (None, st)"
  shows "(prediction_result st = JStr ''Realistic'' \<longrightarrow>
            fst (predict e (BodyJson (JObj kv)))
              = Inr \<lparr>body = JObj [(''name'', JStr name), (''prediction'', JStr ''Realistic''),
                                  (''reason'', JStr '' '')],
                     status = 200\<rparr>)
       \<and> (prediction_result st = JStr ''Not Realistic'' \<longrightarrow>
            fst (predict e (BodyJson (JObj kv)))
              = Inr \<lparr>body = JObj [(''name'', JStr name), (''prediction'', JStr ''Not Realistic'')],
                     status = 200\<rparr>)"
  using predict_valid_request_loop[OF assms(1) assms(3)[unfolded assms(2)] assms(4)[unfolded assms(2)]]
    assms(2)
  by (simp add: after_loop_def)

lemma example_reason_reply:
  \<open>extract_json_from_response (strip ''{"prediction":"Not Realistic","reason":"too short"}'')
     = ''{"prediction":"Not Realistic","reason":"too short"}''\<close>
  by (simp add: extract_json_from_response_def match_at_def isspace_def
        strip_def lstrip_def rstrip_def)

theorem success_response_shape_witness:
  \<open>fst (predict (example_env (\<lambda>i. Returns ''```json {"prediction":"Realistic"} ```''))
          example_request)
     = Inr \<lparr>body = JObj [(''name'', JStr ''John Doe''), (''prediction'', JStr ''Realistic''),
                         (''reason'', JStr '' '')],
            status = 200\<rparr>
   \<and> fst (predict
            (example_env (\<lambda>i. Returns ''{"prediction":"Not Realistic","reason":"too short"}''))
            example_request)
     = Inr \<lparr>body = JObj [(''name'', JStr ''John Doe''), (''prediction'', JStr ''Not Realistic'')],
            status = 200\<rparr>\<close>
proof -
  let ?e1 = \<open>example_env (\<lambda>i. Returns ''```json {"prediction":"Realistic"} ```'')\<close>
  let ?e2 = \<open>example_env (\<lambda>i. Returns ''{"prediction":"Not Realistic","reason":"too short"}'')\<close>
  let ?kv = "[(''name'', JStr ''  John   Doe '')]"
  have h1: "map_of ?kv ''name'' = Some (JStr ''  John   Doe '')" by simp
  have h2: "''John Doe'' = normalize_name ''  John   Doe ''" by (simp add: example_name)
  have h3: "''John Doe'' \<noteq> []" by simp
  have k0: "(0::nat) < max_retries" by (simp add: max_retries_def)
  have l1: "retry_loop ?e1 ''John Doe'' 0 initial_state
      = (None, initial_state\<lparr>trace := trace initial_state @ [ApiCall (build_prompt ''John Doe'')],
                 prediction_result := JStr ''Realistic'',
                 ai_reason := (if JStr ''Realistic'' = JStr ''Not Realistic''
                               then dict_get [(''prediction'', JStr ''Realistic'')] ''reason'' JNull
                               else JNull),
                 openai_error_message := None\<rparr>)"
    by (rule retry_loop_valid[OF k0, where content = \<open>''```json {"prediction":"Realistic"} ```''\<close>])
       (simp_all add: example_env_def example_fenced_reply example_loads_def dict_get_def)
  have l2: "retry_loop ?e2 ''John Doe'' 0 initial_state
      = (None, initial_state\<lparr>trace := trace initial_state @ [ApiCall (build_prompt ''John Doe'')],
                 prediction_result := JStr ''Not Realistic'',
                 ai_reason := (if JStr ''Not Realistic'' = JStr ''Not Realistic''
                               then dict_get [(''prediction'', JStr ''Not Realistic''),
                                              (''reason'', JStr ''too short'')] ''reason'' JNull
                               else JNull),
                 openai_error_message := None\<rparr>)"
    by (rule retry_loop_valid[OF k0,
              where content = \<open>''{"prediction":"Not Realistic","reason":"too short"}''\<close>])
       (simp_all add: example_env_def example_reason_reply example_loads_def dict_get_def)
  note t1 = success_response_shape[OF h1 h2 h3 l1, THEN conjunct1]
  note t2 = success_response_shape[OF h1 h2 h3 l2, THEN conjunct2]
  show ?thesis using t1 t2 by (simp add: example_request_def)
qed

section \<open>Properties of the request checks and of the responses\<close>

text \<open>
  Claim C5, as the code has it. A request whose body parses to a non-empty JSON object
  in which \<open>name\<close> is absent, or is a string that is empty after normalisation, is
  answered with status 400 and the body \<open>{"error": "No name provided"}\<close>, and no
  completion call is made. The empty object is caught earlier by the guard
  \<open>if not data\<close>: it is answered with status 400 and the body
  \<open>{"error": "Invalid JSON payload"}\<close>, again without a completion call.
\<close>

theorem missing_name_rejected:
  "(kv \<noteq> [] \<and> (map_of kv ''name'' = None
                  \<or> (\<exists>raw. map_of kv ''name'' = Some (JStr raw) \<and> normalize_name raw = []))
      \<longrightarrow> predict e (BodyJson (JObj kv))
            = (Inr \<lparr>body = JObj [(''error'', JStr ''No name provided'')], status = 400\<rparr>, []))
   \<and> predict e (BodyJson (JObj []))
       = (Inr \<lparr>body = JObj [(''error'', JStr ''Invalid JSON payload'')], status = 400\<rparr>, [])"
proof (intro conjI impI)
  assume a: "kv \<noteq> [] \<and> (map_of kv ''name'' = None
                  \<or> (\<exists>raw. map_of kv ''name'' = Some (JStr raw) \<and> normalize_name raw = []))"
  have e: "normalize_name [] = []"
    by (simp add: normalize_name_def strip_def lstrip_def rstrip_def)
  from a show "predict e (BodyJson (JObj kv))
            = (Inr \<lparr>body = JObj [(''error'', JStr ''No name provided'')], status = 400\<rparr>, [])"
    by (auto simp: predict_def predict_body_def dict_get_def Let_def e error_response_def)
next
  show "predict e (BodyJson (JObj []))
       = (Inr \<lparr>body = JObj [(''error'', JStr ''Invalid JSON payload'')], status = 400\<rparr>, [])"
    by (simp add: predict_def predict_body_def error_response_def)
qed

theorem missing_name_rejected_witness:
  "predict (example_env (\<lambda>i. Raises ''unused'')) (BodyJson (JObj [(''age'', JInt 3)]))
     = (Inr \<lparr>body = JObj [(''error'', JStr ''No name provided'')], status = 400\<rparr>, [])
   \<and> predict (example_env (\<lambda>i. Raises ''unused''))
        (BodyJson (JObj [(''name'', JStr [CHR '' '', CHR 0x09, CHR '' ''])]))
     = (Inr \<lparr>body = JObj [(''error'', JStr ''No name provided'')], status = 400\<rparr>, [])"
proof -
  let ?e = "example_env (\<lambda>i. Raises ''unused'')"
  have h1: "[(''age'', JInt 3)] \<noteq> [] \<and> (map_of [(''age'', JInt 3)] ''name'' = None
      \<or> (\<exists>raw. map_of [(''age'', JInt 3)] ''name'' = Some (JStr raw) \<and> normalize_name raw = []))"
    by simp
  have n: "normalize_name [CHR '' '', CHR 0x09, CHR '' ''] = []"
    by (simp add: normalize_name_def strip_def lstrip_def rstrip_def isspace_def)
  have h2: "[(''name'', JStr [CHR '' '', CHR 0x09, CHR '' ''])] \<noteq> []
     \<and> (map_of [(''name'', JStr [CHR '' '', CHR 0x09, CHR '' ''])] ''name'' = None
      \<or> (\<exists>raw. map_of [(''name'', JStr [CHR '' '', CHR 0x09, CHR '' ''])] ''name'' = Some (JStr raw)
            \<and> normalize_name raw = []))"
    using n by simp
  note t1 = missing_name_rejected[of "[(''age'', JInt 3)]" ?e, THEN conjunct1, THEN mp, OF h1]
  note t2 = missing_name_rejected[of "[(''name'', JStr [CHR '' '', CHR 0x09, CHR '' ''])]" ?e,
              THEN conjunct1, THEN mp, OF h2]
  show ?thesis using t1 t2 by simp
qed

text \<open>
  Claim C5 as stated fails for the empty object \<open>{}\<close>: its \<open>name\<close> is absent, and the
  body of the response is \<open>{"error": "Invalid JSON payload"}\<close>, not
  \<open>{"error": "No name provided"}\<close>.
\<close>

theorem empty_object_counterexample:
  "map_of ([] :: (string \<times> json) list) ''name'' = None
   \<and> (\<forall>e. predict e (BodyJson (JObj []))
            = (Inr \<lparr>body = JObj [(''error'', JStr ''Invalid JSON payload'')], status = 400\<rparr>, []))
   \<and> (\<forall>e. fst (predict e (BodyJson (JObj [])))
            \<noteq> Inr \<lparr>body = JObj [(''error'', JStr ''No name provided'')], status = 400\<rparr>)"
  by (simp add: predict_def predict_body_def error_response_def)

text \<open>
  Claim C6 says that a body that is not valid JSON is answered 400 with
  \<open>Invalid JSON payload\<close>. In the code, \<open>request.get_json()\<close> raises on such a body
  inside the outer \<open>try\<close>, so the response is the 500 of the outer \<open>except Exception\<close>;
  no completion call is made.
\<close>

theorem invalid_json_body_is_500:
  "predict e BodyNotJson
     = (Inr \<lparr>body = JObj [(''error'', JStr ''An unexpected server error occurred'')],
             status = 500\<rparr>,
        [])"
  by (simp add: predict_def predict_body_def error_response_def)

text \<open>
  Claim C10. A request whose body parses to a JSON object with a \<open>name\<close> that is
  present but no string is answered with status 500 and the body
  \<open>{"error": "An unexpected server error occurred"}\<close>, not with a 400, and no completion
  call is made.
\<close>

theorem non_string_name_is_500:
  assumes "map_of kv ''name'' = Some v" and "\<forall>s. v \<noteq> JStr s"
  shows "predict e (BodyJson (JObj kv))
           = (Inr \<lparr>body = JObj [(''error'', JStr ''An unexpected server error occurred'')],
                   status = 500\<rparr>,
              [])"
proof -
  have "kv \<noteq> []" using assms(1) by auto
  then show ?thesis
    using assms
    by (cases v) (simp_all add: predict_def predict_body_def dict_get_def error_response_def)
qed

theorem non_string_name_is_500_witness:
  "predict (example_env (\<lambda>i. Raises ''unused'')) (BodyJson (JObj [(''name'', JInt 42)]))
     = (Inr \<lparr>body = JObj [(''error'', JStr ''An unexpected server error occurred'')],
             status = 500\<rparr>,
        [])
   \<and> predict (example_env (\<lambda>i. Raises ''unused''))
        (BodyJson (JObj [(''name'', JArr [JStr ''John'']), (''age'', JInt 3)]))
     = (Inr \<lparr>body = JObj [(''error'', JStr ''An unexpected server error occurred'')],
             status = 500\<rparr>,
        [])"
proof -
  let ?e = "example_env (\<lambda>i. Raises ''unused'')"
  have a1: "map_of [(''name'', JInt 42)] ''name'' = Some (JInt 42)" by simp
  have a2: "\<forall>s. JInt 42 \<noteq> JStr s" by simp
  have b1: "map_of [(''name'', JArr [JStr ''John'']), (''age'', JInt 3)] ''name''
              = Some (JArr [JStr ''John''])" by simp
  have b2: "\<forall>s. JArr [JStr ''John''] \<noteq> JStr s" by simp
  note t1 = non_string_name_is_500[OF a1 a2, of ?e]
  note t2 = non_string_name_is_500[OF b1 b2, of ?e]
  show ?thesis using t1 t2 by simp
qed





text \<open>
  Claim C7. For every string, the normalised name is the input with leading and trailing
  whitespace removed and every internal run of whitespace replaced by one space; the
  input \<open>"  John   Doe "\<close> gives \<open>"John Doe"\<close>. It is this name that every prompt sent
  by the handler is built from and that a 200 response carries in its \<open>name\<close> field.
\<close>

theorem normalized_name_spec:
  "normalize_name s = spec_normalized s
   \<and> normalize_name ''  John   Doe '' = ''John Doe''
   \<and> (map_of kv ''name'' = Some (JStr s) \<longrightarrow>
        (\<forall>p. ApiCall p \<in> set (snd (predict e (BodyJson (JObj kv))))
               \<longrightarrow> p = build_prompt (spec_normalized s))
        \<and> (\<forall>r. fst (predict e (BodyJson (JObj kv))) = Inr r \<and> status r = 200 \<longrightarrow>
             (\<exists>rest. body r = JObj ((''name'', JStr (spec_normalized s)) # rest))))"
proof (intro conjI impI allI)
  show eq: "normalize_name s = spec_normalized s"
    by (simp add: normalize_name_eq re_sub_spaces_collapse strip_spec_trim spec_normalized_def)
  show "normalize_name ''  John   Doe '' = ''John Doe''" by (rule example_name)
next
  fix p
  assume m: "map_of kv ''name'' = Some (JStr s)"
    and p: "ApiCall p \<in> set (snd (predict e (BodyJson (JObj kv))))"
  have eq: "normalize_name s = spec_normalized s"
    by (simp add: normalize_name_eq re_sub_spaces_collapse strip_spec_trim spec_normalized_def)
  from m have ne: "kv \<noteq> []" by auto
  show "p = build_prompt (spec_normalized s)"
  proof (cases "normalize_name s = []")
    case True
    then show ?thesis using m ne p
      by (simp add: predict_def predict_body_def dict_get_def)
  next
    case False
    obtain ro st where l: "retry_loop e (normalize_name s) 0 initial_state = (ro, st)"
      by (cases "retry_loop e (normalize_name s) 0 initial_state") auto
    from retry_loop_shape[OF l] have
      "\<forall>p. ApiCall p \<in> set (trace st) \<longrightarrow> p = build_prompt (normalize_name s)"
      by (auto simp: initial_state_def)
    then show ?thesis
      using predict_valid_request_loop[OF m False l] eq p by simp
  qed
next
  fix r
  assume m: "map_of kv ''name'' = Some (JStr s)"
    and ok: "fst (predict e (BodyJson (JObj kv))) = Inr r \<and> status r = 200"
  have eq: "normalize_name s = spec_normalized s"
    by (simp add: normalize_name_eq re_sub_spaces_collapse strip_spec_trim spec_normalized_def)
  from m have ne: "kv \<noteq> []" by auto
  show "\<exists>rest. body r = JObj ((''name'', JStr (spec_normalized s)) # rest)"
  proof (cases "normalize_name s = []")
    case True
    then show ?thesis using m ne ok
      by (auto simp: predict_def predict_body_def dict_get_def error_response_def)
  next
    case False
    obtain ro st where l: "retry_loop e (normalize_name s) 0 initial_state = (ro, st)"
      by (cases "retry_loop e (normalize_name s) 0 initial_state") auto
    note pr = predict_valid_request_loop[OF m False l]
    show ?thesis
    proof (cases ro)
      case None
      then show ?thesis
        using pr ok after_loop_shape[of "normalize_name s" st] eq by auto
    next
      case (Some y)
      show ?thesis
      proof (cases y)
        case (Inr r')
        then obtain msg where "r' = error_response msg 500"
          using retry_loop_shape[OF l] Some by blast
        then show ?thesis using pr ok Some Inr by (auto simp: error_response_def)
      next
        case (Inl x)
        then show ?thesis using pr ok Some
          by (auto simp: error_response_def split: if_splits)
      qed
    qed
  qed
qed

theorem normalized_name_spec_witness:
  \<open>normalize_name [CHR 0x09, CHR ''a'', CHR '' '', CHR 0x0A, CHR ''b'', CHR '' '']
     = spec_normalized [CHR 0x09, CHR ''a'', CHR '' '', CHR 0x0A, CHR ''b'', CHR '' '']
   \<and> spec_normalized ''  John   Doe '' = ''John Doe''
   \<and> map_of [(''name'', JStr ''  John   Doe '')] ''name'' = Some (JStr ''  John   Doe '')
   \<and> ApiCall (build_prompt (spec_normalized ''  John   Doe ''))
        \<in> set (snd (predict (example_env (\<lambda>i. Returns ''{"prediction":"Realistic"}''))
                       example_request))
   \<and> (\<exists>r. fst (predict (example_env (\<lambda>i. Returns ''{"prediction":"Realistic"}''))
                  example_request) = Inr r
          \<and> status r = 200
          \<and> (\<exists>rest. body r = JObj ((''name'', JStr ''John Doe'') # rest)))\<close>
proof -
  let ?e = \<open>example_env (\<lambda>i. Returns ''{"prediction":"Realistic"}'')\<close>
  let ?kv = "[(''name'', JStr ''  John   Doe '')]"
  let ?s = "''  John   Doe ''"
  note t = normalized_name_spec[of ?s ?kv ?e]
  note t0 = normalized_name_spec[of "[CHR 0x09, CHR ''a'', CHR '' '', CHR 0x0A, CHR ''b'', CHR '' '']"
              ?kv ?e, THEN conjunct1]
  have h1: "map_of ?kv ''name'' = Some (JStr ?s)" by simp
  have sp: "spec_normalized ?s = ''John Doe''"
    using t[THEN conjunct1] t[THEN conjunct2, THEN conjunct1] by simp
  have k0: "(0::nat) < max_retries" by (simp add: max_retries_def)
  have x: \<open>extract_json_from_response (strip ''{"prediction":"Realistic"}'')
             = ''{"prediction":"Realistic"}''\<close>
    by (simp add: extract_json_from_response_def match_at_def isspace_def
          strip_def lstrip_def rstrip_def)
  have l: "retry_loop ?e ''John Doe'' 0 initial_state
      = (None, initial_state\<lparr>trace := trace initial_state @ [ApiCall (build_prompt ''John Doe'')],
                 prediction_result := JStr ''Realistic'',
                 ai_reason := (if JStr ''Realistic'' = JStr ''Not Realistic''
                               then dict_get [(''prediction'', JStr ''Realistic'')] ''reason'' JNull
                               else JNull),
                 openai_error_message := None\<rparr>)"
    by (rule retry_loop_valid[OF k0, where content = \<open>''{"prediction":"Realistic"}''\<close>])
       (simp_all add: example_env_def x example_loads_def dict_get_def)
  have h2: "''John Doe'' \<noteq> []" by simp
  note pr = predict_valid_request_loop[OF h1, of ?e None, unfolded example_name, OF h2 l]
  obtain r where r: "fst (predict ?e (BodyJson (JObj ?kv))) = Inr r" "status r = 200"
    using pr by (simp add: after_loop_def)
  have tr: "ApiCall (build_prompt (spec_normalized ?s)) \<in> set (snd (predict ?e (BodyJson (JObj ?kv))))"
    using pr by (simp add: sp initial_state_def)
  note t3 = t[THEN conjunct2, THEN conjunct2, THEN mp, OF h1]
  have "\<exists>rest. body r = JObj ((''name'', JStr (spec_normalized ?s)) # rest)"
    using t3[THEN conjunct2, rule_format, of r] r by simp
  then have b: "\<exists>r. fst (predict ?e (BodyJson (JObj ?kv))) = Inr r
          \<and> status r = 200
          \<and> (\<exists>rest. body r = JObj ((''name'', JStr ''John Doe'') # rest))"
    using r by (auto simp only: sp)
  show ?thesis
    unfolding example_request_def using t0 sp h1 tr b by (intro conjI)
qed

end
